theory Spec2Isabelle
  imports Complex_Main
begin

section \<open>Numbers\<close>

text \<open>
  A JavaScript \<open>number\<close> is modelled as an exact real or \<open>NaN\<close>. \<open>NaN\<close> is part of the
  model because the code produces it on ordinary inputs (\<open>Number.parseInt\<close> on a substring
  without hexadecimal digits, \<open>0 / 0\<close> in \<open>unitVector\<close>) and because every comparison with
  it is false, which decides which branch the gradient functions take. The operators
  \<open>+\<close>, \<open>-\<close>, \<open>*\<close> and \<open>/\<close> of the model are exact. Where the code cuts a computed number
  with \<open>Math.floor\<close> (the channels of \<open>lerp\<close>) or loops until a computed number passes a test
  (\<open>normalizeAngle\<close>), every operation is followed by \<open>double\<close>, the rounding of IEEE 754
  defined below, because there the rounding decides the result. The arithmetic on
  coordinates (midpoints, offsets of strokes) is left exact. Signed zeros and the
  infinities are not modelled.
\<close>

datatype number = Num real | NaN

instantiation number :: "{plus, minus, uminus, times, inverse, ord}"
begin

fun plus_number :: "number \<Rightarrow> number \<Rightarrow> number" where
  "plus_number (Num a) (Num b) = Num (a + b)"
| "plus_number _ _ = NaN"

fun minus_number :: "number \<Rightarrow> number \<Rightarrow> number" where
  "minus_number (Num a) (Num b) = Num (a - b)"
| "minus_number _ _ = NaN"

fun uminus_number :: "number \<Rightarrow> number" where
  "uminus_number (Num a) = Num (- a)"
| "uminus_number NaN = NaN"

fun times_number :: "number \<Rightarrow> number \<Rightarrow> number" where
  "times_number (Num a) (Num b) = Num (a * b)"
| "times_number _ _ = NaN"

text \<open>
  Division by zero: \<open>0 / 0\<close> is \<open>NaN\<close> in JavaScript. A nonzero number divided by zero
  is an infinity there, which this model does not have; \<open>lerp_zero_divisor\<close> and
  \<open>unitVector_zero_divisor\<close> below show that the code never divides a nonzero number by
  zero, so that the value chosen for that case is never used.
\<close>

fun divide_number :: "number \<Rightarrow> number \<Rightarrow> number" where
  "divide_number (Num a) (Num b) = (if b = 0 then NaN else Num (a / b))"
| "divide_number _ _ = NaN"

definition inverse_number :: "number \<Rightarrow> number" where
  "inverse_number a = divide (Num 1) a"

text \<open>The comparisons \<open><\<close>, \<open><=\<close>, \<open>>\<close>, \<open>>=\<close>: false as soon as one side is \<open>NaN\<close>.\<close>

fun less_number :: "number \<Rightarrow> number \<Rightarrow> bool" where
  "less_number (Num a) (Num b) = (a < b)"
| "less_number _ _ = False"

fun less_eq_number :: "number \<Rightarrow> number \<Rightarrow> bool" where
  "less_eq_number (Num a) (Num b) = (a \<le> b)"
| "less_eq_number _ _ = False"

instance ..

end

text \<open>Strict equality \<open>===\<close> on numbers: \<open>NaN === NaN\<close> is false.\<close>

fun strictEq :: "number \<Rightarrow> number \<Rightarrow> bool" where
  "strictEq (Num a) (Num b) = (a = b)"
| "strictEq _ _ = False"

text \<open>
  Rounding to a double. \<open>roundEven y\<close> is the integer nearest to \<open>y\<close>, the even one of the
  two at a tie. \<open>exponentOf x\<close> is the exponent \<open>e\<close> with \<open>2^e <= |x| < 2^(e+1)\<close>. \<open>toDouble x\<close>
  is the multiple of \<open>2^(e-52)\<close> nearest to \<open>x\<close>: the number with a significand of 53 bits
  that round-to-nearest, ties-to-even gives. The exponent is not bounded, so overflow and
  the subnormal numbers are not modelled. \<open>double\<close> is \<open>toDouble\<close> on a \<open>number\<close>.
\<close>

definition roundEven :: "real \<Rightarrow> int" where
  "roundEven y =
     (let n = \<lfloor>y\<rfloor>; d = y - of_int n
      in if d < 1 / 2 then n else if 1 / 2 < d then n + 1 else if even n then n else n + 1)"

definition exponentOf :: "real \<Rightarrow> int" where
  "exponentOf x = \<lfloor>log 2 \<bar>x\<bar>\<rfloor>"

definition toDouble :: "real \<Rightarrow> real" where
  "toDouble x =
     (if x = 0 then 0
      else of_int (roundEven (x / 2 powi (exponentOf x - 52))) * 2 powi (exponentOf x - 52))"

fun double :: "number \<Rightarrow> number" where
  "double (Num a) = Num (toDouble a)"
| "double NaN = NaN"

fun Math_floor :: "number \<Rightarrow> number" where
  "Math_floor (Num a) = Num (of_int \<lfloor>a\<rfloor>)"
| "Math_floor NaN = NaN"

fun Math_sqrt :: "number \<Rightarrow> number" where
  "Math_sqrt (Num a) = (if a < 0 then NaN else Num (sqrt a))"
| "Math_sqrt NaN = NaN"

fun Math_cos :: "number \<Rightarrow> number" where
  "Math_cos (Num a) = Num (cos a)"
| "Math_cos NaN = NaN"

fun Math_sin :: "number \<Rightarrow> number" where
  "Math_sin (Num a) = Num (sin a)"
| "Math_sin NaN = NaN"

text \<open>
  \<open>Math.atan2(b, a)\<close>: the angle of the point \<open>(a, b)\<close> in \<open>(-pi, pi]\<close>, and \<open>0\<close> at the
  origin, rounded to a double. \<open>Math.PI\<close> is the double nearest to \<open>pi\<close>.
\<close>

definition atan2 :: "real \<Rightarrow> real \<Rightarrow> real" where
  "atan2 b a =
     (if 0 < a then arctan (b / a)
      else if a < 0 then (if 0 \<le> b then arctan (b / a) + pi else arctan (b / a) - pi)
      else if 0 < b then pi / 2
      else if b < 0 then - (pi / 2)
      else 0)"

fun Math_atan2 :: "number \<Rightarrow> number \<Rightarrow> number" where
  "Math_atan2 (Num b) (Num a) = Num (toDouble (atan2 b a))"
| "Math_atan2 _ _ = NaN"

definition Math_PI :: number where
  "Math_PI = Num (toDouble pi)"

section \<open>Strings\<close>

text \<open>
  A string is a list of characters, one \<open>char\<close> for one code unit. \<open>substr\<close> is
  \<open>String.prototype.substr(start, length)\<close> for a start that is not negative; past the
  end of the string it gives the empty string.
\<close>

definition substr :: "nat \<Rightarrow> nat \<Rightarrow> string \<Rightarrow> string" where
  "substr start len s = take len (drop start s)"

definition isWhiteSpace :: "char \<Rightarrow> bool" where
  "isWhiteSpace c =
     (c \<in> set [CHR 0x09, CHR 0x0A, CHR 0x0B, CHR 0x0C, CHR 0x0D, CHR 0x20, CHR 0xA0])"

definition hexDigitValue :: "char \<Rightarrow> nat option" where
  "hexDigitValue c = map_of
     [(CHR ''0'', 0), (CHR ''1'', 1), (CHR ''2'', 2), (CHR ''3'', 3), (CHR ''4'', 4),
      (CHR ''5'', 5), (CHR ''6'', 6), (CHR ''7'', 7), (CHR ''8'', 8), (CHR ''9'', 9),
      (CHR ''a'', 10), (CHR ''b'', 11), (CHR ''c'', 12), (CHR ''d'', 13), (CHR ''e'', 14),
      (CHR ''f'', 15),
      (CHR ''A'', 10), (CHR ''B'', 11), (CHR ''C'', 12), (CHR ''D'', 13), (CHR ''E'', 14),
      (CHR ''F'', 15)] c"

definition isHexDigit :: "char \<Rightarrow> bool" where
  "isHexDigit c = (hexDigitValue c \<noteq> None)"

definition hexValue :: "string \<Rightarrow> nat" where
  "hexValue ds = foldl (\<lambda>acc d. 16 * acc + the (hexDigitValue d)) 0 ds"

text \<open>
  \<open>Number.parseInt(s, 16)\<close>: leading white space is skipped, then an optional sign, then
  an optional \<open>0x\<close> or \<open>0X\<close>; the value is that of the longest run of hexadecimal digits
  that follows, and \<open>NaN\<close> when that run is empty.
\<close>

definition parseInt16 :: "string \<Rightarrow> number" where
  "parseInt16 s =
     (let t = dropWhile isWhiteSpace s;
          negative = (take 1 t = ''-'');
          u = (if take 1 t = ''+'' \<or> take 1 t = ''-'' then drop 1 t else t);
          w = (if take 2 u = ''0x'' \<or> take 2 u = ''0X'' then drop 2 u else u);
          ds = takeWhile isHexDigit w
      in if ds = [] then NaN
         else if negative then Num (- real (hexValue ds))
         else Num (real (hexValue ds)))"

text \<open>
  The decimal text of an integer, and \<open>numberText\<close> for the template literal
  \<open>`${n}`\<close> of a number. An integer is printed by its decimal digits and \<open>NaN\<close> as
  \<open>NaN\<close>. The text of a number that is not an integer (the shortest decimal that reads
  back as the same double) is not modelled: it is the parameter \<open>fractionText\<close>, about which
  nothing is assumed. The code prints results of \<open>Math.floor\<close> only, so that no result
  depends on it; \<open>noFractionText\<close> is what the examples pass.
\<close>

fun digitsOf :: "nat \<Rightarrow> string" where
  "digitsOf n =
     (if n < 10 then [''0123456789'' ! n]
      else digitsOf (n div 10) @ [''0123456789'' ! (n mod 10)])"

declare digitsOf.simps [simp del]

definition intText :: "int \<Rightarrow> string" where
  "intText n = (if n < 0 then CHR ''-'' # digitsOf (nat (- n)) else digitsOf (nat n))"

fun numberText :: "(real \<Rightarrow> string) \<Rightarrow> number \<Rightarrow> string" where
  "numberText fractionText (Num a) =
     (if a = of_int \<lfloor>a\<rfloor> then intText \<lfloor>a\<rfloor> else fractionText a)"
| "numberText fractionText NaN = ''NaN''"

definition noFractionText :: "real \<Rightarrow> string" where
  "noFractionText a = []"

section \<open>Gradients\<close>

record GradientStop =
  position :: number
  strokeColor :: string
  fillColor :: string
  showLegendLabel :: bool

text \<open>
  The \<open>type\<close> of a gradient is a string at run time; \<open>gradientColorForValue\<close> compares it
  with \<open>"linear"\<close> and \<open>"steps"\<close> and has a branch for everything else.
\<close>

record Gradient =
  type :: string
  stops :: "GradientStop list"

text \<open>
  The \<open>colorType\<close> argument selects the stroke or the fill color of a stop, the two keys
  the function is documented for and called with.
\<close>

datatype colorType = StrokeColor | FillColor

fun colorOf :: "colorType \<Rightarrow> GradientStop \<Rightarrow> string" where
  "colorOf StrokeColor s = strokeColor s"
| "colorOf FillColor s = fillColor s"

text \<open>
  Reading \<open>stops[i]\<close> past the end of the array gives \<open>undefined\<close>, and the property
  access that follows throws a \<open>TypeError\<close>. The gradient functions return
  \<open>Inl TypeError\<close> where the code would throw and \<open>Inr\<close> of the color otherwise.
\<close>

datatype error = TypeError

definition elemAt :: "'a list \<Rightarrow> nat \<Rightarrow> error + 'a" where
  "elemAt xs i = (if i < length xs then Inr (xs ! i) else Inl TypeError)"

definition bindE :: "error + 'a \<Rightarrow> ('a \<Rightarrow> error + 'b) \<Rightarrow> error + 'b" where
  "bindE m f = (case m of Inl e \<Rightarrow> Inl e | Inr v \<Rightarrow> f v)"

definition emergencyColor :: string where
  "emergencyColor = ''pink''"

text \<open>
  \<open>lerp\<close>, with the rounding of each of its five operations: the two differences and the
  quotient of \<open>terp\<close>, then the difference, the product and the sum of the result.
\<close>

definition lerp :: "number \<Rightarrow> number \<Rightarrow> number \<Rightarrow> number \<Rightarrow> number \<Rightarrow> number" where
  "lerp value sourceMin sourceMax targetMin targetMax =
     (if strictEq targetMin targetMax then targetMin
      else
        let value1 = (if value < sourceMin then sourceMin else value);
            value2 = (if value1 > sourceMax then sourceMax else value1);
            terp = double (double (value2 - sourceMin) / double (sourceMax - sourceMin))
        in double (targetMin + double (terp * double (targetMax - targetMin))))"

text \<open>
  The body of the bracketing loop of \<open>linearColorForValue\<close> once the pair
  \<open>(stops[i], stops[i+1])\<close> has been found, with the final \<open>rgb(...)\<close> template.
\<close>

definition interpolatedColor ::
  "(real \<Rightarrow> string) \<Rightarrow> GradientStop \<Rightarrow> GradientStop \<Rightarrow> colorType \<Rightarrow> number \<Rightarrow> string" where
  "interpolatedColor fractionText stopFrom stopTo ct value =
     (let posFrom = position stopFrom;
          rFrom = parseInt16 (substr 1 2 (colorOf ct stopFrom));
          gFrom = parseInt16 (substr 3 2 (colorOf ct stopFrom));
          bFrom = parseInt16 (substr 5 2 (colorOf ct stopFrom));
          posTo = position stopTo;
          rTo = parseInt16 (substr 1 2 (colorOf ct stopTo));
          gTo = parseInt16 (substr 3 2 (colorOf ct stopTo));
          bTo = parseInt16 (substr 5 2 (colorOf ct stopTo));
          r = lerp value posFrom posTo rFrom rTo;
          g = lerp value posFrom posTo gFrom gTo;
          b = lerp value posFrom posTo bFrom bTo
      in ''rgb('' @ numberText fractionText (Math_floor r) @ '', ''
           @ numberText fractionText (Math_floor g) @ '', ''
           @ numberText fractionText (Math_floor b) @ '')'')"

text \<open>
  The loop \<open>for (i = 0; i < stops.length-1; ++i)\<close> of \<open>linearColorForValue\<close>, from index
  \<open>i\<close> on. The test \<open>i < stops.length-1\<close> is written \<open>i + 1 < length stops\<close>, which is the
  same for every length and avoids the truncated subtraction of \<open>nat\<close>. Leaving the loop
  without a match is the \<open>!foundMatch\<close> return of the emergency color.
\<close>

function linearLoop ::
  "(real \<Rightarrow> string) \<Rightarrow> GradientStop list \<Rightarrow> colorType \<Rightarrow> number \<Rightarrow> nat \<Rightarrow> error + string" where
  "linearLoop fractionText stopList ct value i =
     (if i + 1 < length stopList then
        bindE (elemAt stopList i) (\<lambda>stopFrom.
        bindE (elemAt stopList (i + 1)) (\<lambda>stopTo.
          if value \<ge> position stopFrom \<and> value < position stopTo
          then Inr (interpolatedColor fractionText stopFrom stopTo ct value)
          else linearLoop fractionText stopList ct value (i + 1)))
      else Inr emergencyColor)"
  by pat_completeness auto
termination
  by (relation "measure (\<lambda>(fractionText, stopList, ct, value, i). length stopList - i)") auto

declare linearLoop.simps [simp del]

definition linearColorForValue ::
  "(real \<Rightarrow> string) \<Rightarrow> GradientStop list \<Rightarrow> colorType \<Rightarrow> number \<Rightarrow> error + string" where
  "linearColorForValue fractionText stopList ct value =
     (if length stopList = 0 then Inr emergencyColor
      else
        bindE (elemAt stopList (length stopList - 1)) (\<lambda>lastStop.
        bindE (elemAt stopList 0) (\<lambda>firstStop.
          if value < position firstStop then Inr (colorOf ct firstStop)
          else if value \<ge> position lastStop then Inr (colorOf ct lastStop)
          else linearLoop fractionText stopList ct value 0)))"

text \<open>The loop of \<open>stepColorForValue\<close>, from index \<open>i\<close> on, with the return that follows it.\<close>

function stepLoop :: "GradientStop list \<Rightarrow> colorType \<Rightarrow> number \<Rightarrow> nat \<Rightarrow> error + string" where
  "stepLoop stopList ct value i =
     (if i + 1 < length stopList then
        bindE (elemAt stopList i) (\<lambda>stopFrom.
        bindE (elemAt stopList (i + 1)) (\<lambda>stopTo.
          if value \<ge> position stopFrom \<and> value < position stopTo
          then Inr (colorOf ct stopFrom)
          else stepLoop stopList ct value (i + 1)))
      else Inr emergencyColor)"
  by pat_completeness auto
termination
  by (relation "measure (\<lambda>(stopList, ct, value, i). length stopList - i)") auto

declare stepLoop.simps [simp del]

definition stepColorForValue :: "GradientStop list \<Rightarrow> colorType \<Rightarrow> number \<Rightarrow> error + string" where
  "stepColorForValue stopList ct value =
     (if length stopList = 0 then Inr emergencyColor
      else
        bindE (elemAt stopList (length stopList - 1)) (\<lambda>lastStop.
        bindE (elemAt stopList 0) (\<lambda>firstStop.
          if value < position firstStop then Inr (colorOf ct firstStop)
          else if value \<ge> position lastStop then Inr (colorOf ct lastStop)
          else stepLoop stopList ct value 0)))"

definition gradientColorForValue ::
  "(real \<Rightarrow> string) \<Rightarrow> Gradient \<Rightarrow> colorType \<Rightarrow> number \<Rightarrow> error + string" where
  "gradientColorForValue fractionText gradient ct value =
     (if type gradient = ''linear'' then linearColorForValue fractionText (stops gradient) ct value
      else if type gradient = ''steps'' then stepColorForValue (stops gradient) ct value
      else Inr emergencyColor)"

text \<open>A stop list is sorted ascending by position.\<close>

definition sortedByPosition :: "GradientStop list \<Rightarrow> bool" where
  "sortedByPosition ss = sorted_wrt (\<lambda>a b. position a \<le> position b) ss"

text \<open>
  \<open>bracketsAt ss v i\<close>: the pair \<open>(ss[i], ss[i+1])\<close> brackets the value, the test of both
  loops.
\<close>

definition bracketsAt :: "GradientStop list \<Rightarrow> number \<Rightarrow> nat \<Rightarrow> bool" where
  "bracketsAt ss v i = (i + 1 < length ss \<and> v \<ge> position (ss ! i) \<and> v < position (ss ! (i + 1)))"

text \<open>
  The divisions of a linear resolution. \<open>lerpDivisors\<close> is the list of the divisors of the
  divisions that one call of \<open>lerp\<close> executes: none when it returns at
  \<open>targetMin === targetMax\<close>, else the one divisor \<open>sourceMax - sourceMin\<close>, rounded as
  in \<open>lerp\<close>. The three
  functions after it follow \<open>interpolatedColor\<close>, \<open>linearLoop\<close> and
  \<open>linearColorForValue\<close> branch by branch and collect the divisors of the calls made.
\<close>

definition lerpDivisors :: "number \<Rightarrow> number \<Rightarrow> number \<Rightarrow> number \<Rightarrow> number \<Rightarrow> number list" where
  "lerpDivisors value sourceMin sourceMax targetMin targetMax =
     (if strictEq targetMin targetMax then [] else [double (sourceMax - sourceMin)])"

definition interpolatedDivisors ::
  "GradientStop \<Rightarrow> GradientStop \<Rightarrow> colorType \<Rightarrow> number \<Rightarrow> number list" where
  "interpolatedDivisors stopFrom stopTo ct value =
     (let posFrom = position stopFrom;
          rFrom = parseInt16 (substr 1 2 (colorOf ct stopFrom));
          gFrom = parseInt16 (substr 3 2 (colorOf ct stopFrom));
          bFrom = parseInt16 (substr 5 2 (colorOf ct stopFrom));
          posTo = position stopTo;
          rTo = parseInt16 (substr 1 2 (colorOf ct stopTo));
          gTo = parseInt16 (substr 3 2 (colorOf ct stopTo));
          bTo = parseInt16 (substr 5 2 (colorOf ct stopTo))
      in lerpDivisors value posFrom posTo rFrom rTo
         @ lerpDivisors value posFrom posTo gFrom gTo
         @ lerpDivisors value posFrom posTo bFrom bTo)"

function linearLoopDivisors :: "GradientStop list \<Rightarrow> colorType \<Rightarrow> number \<Rightarrow> nat \<Rightarrow> number list" where
  "linearLoopDivisors stopList ct value i =
     (if i + 1 < length stopList then
        if value \<ge> position (stopList ! i) \<and> value < position (stopList ! (i + 1))
        then interpolatedDivisors (stopList ! i) (stopList ! (i + 1)) ct value
        else linearLoopDivisors stopList ct value (i + 1)
      else [])"
  by pat_completeness auto
termination
  by (relation "measure (\<lambda>(stopList, ct, value, i). length stopList - i)") auto

declare linearLoopDivisors.simps [simp del]

definition linearDivisors :: "GradientStop list \<Rightarrow> colorType \<Rightarrow> number \<Rightarrow> number list" where
  "linearDivisors stopList ct value =
     (if length stopList = 0 then []
      else if value < position (stopList ! 0) then []
      else if value \<ge> position (stopList ! (length stopList - 1)) then []
      else linearLoopDivisors stopList ct value 0)"

text \<open>
  The words of the specification for the linear mode, to compare the code with. A color
  is in the \<open>#RRGGBB\<close> encoding; \<open>hexPair c k\<close> is the 8-bit integer that the two
  hexadecimal digits at \<open>k\<close> and \<open>k + 1\<close> write; the fraction of the value within the
  interval of the two positions is clamped to \<open>[0, 1]\<close>; each channel is interpolated by
  it and floored; the result is the text \<open>rgb(r, g, b)\<close>. \<open>specFraction\<close>, \<open>specChannel\<close>
  and \<open>specLinearColor\<close> read these words over the reals.
\<close>

definition isHexColor :: "string \<Rightarrow> bool" where
  "isHexColor c = (length c = 7 \<and> hd c = CHR ''#'' \<and> list_all isHexDigit (tl c))"

definition hexPair :: "string \<Rightarrow> nat \<Rightarrow> nat" where
  "hexPair c k = 16 * the (hexDigitValue (c ! k)) + the (hexDigitValue (c ! (k + 1)))"

definition specFraction :: "real \<Rightarrow> real \<Rightarrow> real \<Rightarrow> real" where
  "specFraction v a b = max 0 (min 1 ((v - a) / (b - a)))"

definition specChannel :: "nat \<Rightarrow> nat \<Rightarrow> real \<Rightarrow> int" where
  "specChannel cFrom cTo t = \<lfloor>real cFrom + t * (real cTo - real cFrom)\<rfloor>"

definition specLinearColor :: "real \<Rightarrow> string \<Rightarrow> real \<Rightarrow> string \<Rightarrow> real \<Rightarrow> string" where
  "specLinearColor a colorFrom b colorTo v =
     (let t = specFraction v a b
      in ''rgb('' @ intText (specChannel (hexPair colorFrom 1) (hexPair colorTo 1) t) @ '', ''
           @ intText (specChannel (hexPair colorFrom 3) (hexPair colorTo 3) t) @ '', ''
           @ intText (specChannel (hexPair colorFrom 5) (hexPair colorTo 5) t) @ '')'')"

text \<open>
  The same words with the arithmetic of doubles: the fraction is the rounded quotient of
  the two rounded differences, and a channel is the floor of the rounded sum of the
  first channel and the rounded product of the fraction and the rounded difference of
  the channels.
\<close>

definition doubleFraction :: "real \<Rightarrow> real \<Rightarrow> real \<Rightarrow> real" where
  "doubleFraction v a b = max 0 (min 1 (toDouble (toDouble (v - a) / toDouble (b - a))))"

definition doubleChannel :: "nat \<Rightarrow> nat \<Rightarrow> real \<Rightarrow> int" where
  "doubleChannel cFrom cTo t =
     \<lfloor>toDouble (real cFrom + toDouble (t * toDouble (real cTo - real cFrom)))\<rfloor>"

definition doubleLinearColor :: "real \<Rightarrow> string \<Rightarrow> real \<Rightarrow> string \<Rightarrow> real \<Rightarrow> string" where
  "doubleLinearColor a colorFrom b colorTo v =
     (let t = doubleFraction v a b
      in ''rgb('' @ intText (doubleChannel (hexPair colorFrom 1) (hexPair colorTo 1) t) @ '', ''
           @ intText (doubleChannel (hexPair colorFrom 3) (hexPair colorTo 3) t) @ '', ''
           @ intText (doubleChannel (hexPair colorFrom 5) (hexPair colorTo 5) t) @ '')'')"

text \<open>Example inputs.\<close>

definition tintStops :: "GradientStop list" where
  "tintStops =
     [\<lparr>position = Num 0, strokeColor = ''#000000'', fillColor = ''#000000'',
       showLegendLabel = True\<rparr>,
      \<lparr>position = Num 100, strokeColor = ''#646464'', fillColor = ''#646464'',
       showLegendLabel = True\<rparr>]"

definition blackWhiteStops :: "GradientStop list" where
  "blackWhiteStops =
     [\<lparr>position = Num 0, strokeColor = ''#000000'', fillColor = ''#000000'',
       showLegendLabel = True\<rparr>,
      \<lparr>position = Num 100, strokeColor = ''#ffffff'', fillColor = ''#ffffff'',
       showLegendLabel = True\<rparr>]"

definition duplicateStops :: "GradientStop list" where
  "duplicateStops =
     [\<lparr>position = Num 50, strokeColor = ''#000000'', fillColor = ''#000000'', showLegendLabel = True\<rparr>,
      \<lparr>position = Num 0, strokeColor = ''#ff0000'', fillColor = ''#ff0000'', showLegendLabel = True\<rparr>,
      \<lparr>position = Num 0, strokeColor = ''#00ff00'', fillColor = ''#00ff00'', showLegendLabel = True\<rparr>,
      \<lparr>position = Num 80, strokeColor = ''#00ffff'', fillColor = ''#00ff00'', showLegendLabel = True\<rparr>,
      \<lparr>position = Num 100, strokeColor = ''#0000ff'', fillColor = ''#0000ff'', showLegendLabel = True\<rparr>]"

definition exampleStops :: "GradientStop list" where
  "exampleStops =
     [\<lparr>position = Num 0, strokeColor = ''#000000'', fillColor = ''#102030'',
       showLegendLabel = True\<rparr>,
      \<lparr>position = Num 100, strokeColor = ''#ffffff'', fillColor = ''#405060'',
       showLegendLabel = True\<rparr>]"

section \<open>Geometry\<close>

record Point2D =
  x :: number
  y :: number

definition midpoint :: "Point2D \<Rightarrow> Point2D \<Rightarrow> Point2D" where
  "midpoint point1 point2 =
     \<lparr>x = (x point1 + x point2) / Num 2, y = (y point1 + y point2) / Num 2\<rparr>"

text \<open>The point with two finite coordinates.\<close>

definition point :: "real \<Rightarrow> real \<Rightarrow> Point2D" where
  "point a b = \<lparr>x = Num a, y = Num b\<rparr>"

text \<open>
  The result of \<open>halveCubicBezier\<close> is the array of seven points; a \<open>null\<close> control point is
  \<open>None\<close>.
\<close>

definition halveCubicBezier ::
  "Point2D \<Rightarrow> Point2D option \<Rightarrow> Point2D option \<Rightarrow> Point2D \<Rightarrow> Point2D list" where
  "halveCubicBezier point1 control1 control2 point2 =
     (if control1 = None \<and> control2 = None then
        let straightMidpoint = midpoint point1 point2
        in [point1, point1, straightMidpoint, straightMidpoint, straightMidpoint, point2, point2]
      else
        let c1 = (case control1 of None \<Rightarrow> point1 | Some c \<Rightarrow> c);
            c2 = (case control2 of None \<Rightarrow> point2 | Some c \<Rightarrow> c);
            m1 = midpoint point1 c1;
            m2 = midpoint c1 c2;
            m3 = midpoint c2 point2;
            q1 = midpoint m1 m2;
            q2 = midpoint m2 m3;
            oo = midpoint q1 q2
        in [point1, m1, q1, oo, q2, m3, point2])"

text \<open>
  The point at parameter \<open>t\<close> of the cubic Bezier curve with the four given points, by
  its Bernstein form: \<open>bezierAt\<close> for one coordinate, \<open>bezierPoint\<close> for a point. It is what
  the halves of \<open>halveCubicBezier\<close> are compared with.
\<close>

definition bezierAt :: "real \<Rightarrow> real \<Rightarrow> real \<Rightarrow> real \<Rightarrow> real \<Rightarrow> real" where
  "bezierAt a b c d t =
     (1 - t) ^ 3 * a + 3 * (1 - t) ^ 2 * t * b + 3 * (1 - t) * t ^ 2 * c + t ^ 3 * d"

definition bezierPoint :: "Point2D \<Rightarrow> Point2D \<Rightarrow> Point2D \<Rightarrow> Point2D \<Rightarrow> real \<Rightarrow> Point2D" where
  "bezierPoint p c1 c2 q t =
     \<lparr>x = Num ((1 - t) ^ 3) * x p + Num (3 * (1 - t) ^ 2 * t) * x c1
            + Num (3 * (1 - t) * t ^ 2) * x c2 + Num (t ^ 3) * x q,
      y = Num ((1 - t) ^ 3) * y p + Num (3 * (1 - t) ^ 2 * t) * y c1
            + Num (3 * (1 - t) * t ^ 2) * y c2 + Num (t ^ 3) * y q\<rparr>"

definition polarToCartesian :: "number option \<Rightarrow> number option \<Rightarrow> Point2D" where
  "polarToCartesian angleRadians len =
     (let a = (case angleRadians of None \<Rightarrow> Num 0 | Some v \<Rightarrow> v);
          l = (case len of None \<Rightarrow> Num 0 | Some v \<Rightarrow> v)
      in \<lparr>x = l * Math_cos a, y = l * Math_sin a\<rparr>)"

text \<open>
  The two loops of \<open>normalizeAngle\<close>, with the rounding of the product \<open>2 * Math.PI\<close> and
  of the sum or difference of each round. A loop that never ends is the value \<open>None\<close>:
  where neighbouring doubles are further apart than \<open>2 * pi\<close>, a round leaves the angle as
  it is. \<open>NaN\<close> passes both tests at once.
\<close>

partial_function (option) normalizeUp :: "number \<Rightarrow> number option" where
  "normalizeUp angleRadians =
     (if angleRadians \<le> - Math_PI
      then normalizeUp (double (angleRadians + double (Num 2 * Math_PI)))
      else Some angleRadians)"

partial_function (option) normalizeDown :: "number \<Rightarrow> number option" where
  "normalizeDown angleRadians =
     (if angleRadians > Math_PI
      then normalizeDown (double (angleRadians - double (Num 2 * Math_PI)))
      else Some angleRadians)"

definition normalizeAngle :: "number \<Rightarrow> number option" where
  "normalizeAngle angleRadians = Option.bind (normalizeUp angleRadians) normalizeDown"

definition unitVector :: "Point2D \<Rightarrow> Point2D" where
  "unitVector vector =
     (let euclidNorm = Math_sqrt (x vector * x vector + y vector * y vector)
      in \<lparr>x = x vector / euclidNorm, y = y vector / euclidNorm\<rparr>)"

definition deg2rad :: "number \<Rightarrow> number" where
  "deg2rad angleDegrees = double (double (angleDegrees * Math_PI) / Num 180)"

section \<open>Edges\<close>

text \<open>
  A node has the fields of a positionable text element (\<open>label\<close>, \<open>x\<close>, \<open>y\<close>) and its
  extent; the record extends \<open>Point2D\<close> so that \<open>x\<close> and \<open>y\<close> read both. The coordinates are
  the numbers that the unary \<open>+\<close> of the code produces. An optional field is an \<open>option\<close>.
\<close>

record WeathermapNode = Point2D +
  label :: string
  width :: number
  height :: number

record WeathermapEdge =
  node1 :: string
  node2 :: string
  bendDirection :: "number option"
  bendMagnitude :: "number option"
  metricName :: "string option"
  metric2Name :: "string option"
  styleName :: "string option"

text \<open>Truthiness of an optional number: \<open>undefined\<close>, \<open>NaN\<close> and \<open>0\<close> are falsy.\<close>

fun truthy :: "number option \<Rightarrow> bool" where
  "truthy None = False"
| "truthy (Some NaN) = False"
| "truthy (Some (Num r)) = (r \<noteq> 0)"

text \<open>Truthiness of an optional string: \<open>undefined\<close>, \<open>null\<close> and the empty string are falsy.\<close>

fun truthyString :: "string option \<Rightarrow> bool" where
  "truthyString None = False"
| "truthyString (Some s) = (s \<noteq> [])"

text \<open>
  Two example edges with a bend, of 90 degrees and of \<open>1e19\<close> degrees, and two nodes of
  50 by 20 with the centers \<open>(25, 10)\<close> and \<open>(125, 10)\<close>. \<open>hugeAngle\<close> is \<open>1e19\<close> degrees in
  radians as \<open>deg2rad\<close> computes them, rounded once more by the sum with the angle \<open>0\<close>
  between the two centers.
\<close>

definition bentEdge :: WeathermapEdge where
  "bentEdge = \<lparr>node1 = ''a'', node2 = ''b'', bendDirection = Some (Num 90),
     bendMagnitude = Some (Num 10), metricName = Some ''cpu'', metric2Name = None,
     styleName = None\<rparr>"

definition hugeBendEdge :: WeathermapEdge where
  "hugeBendEdge = \<lparr>node1 = ''a'', node2 = ''b'', bendDirection = Some (Num (10 ^ 19)),
     bendMagnitude = Some (Num 10), metricName = Some ''cpu'', metric2Name = None,
     styleName = None\<rparr>"

definition hugeAngle :: real where
  "hugeAngle = toDouble (toDouble (toDouble (10 ^ 19 * toDouble pi) / 180))"

definition nodeA :: WeathermapNode where
  "nodeA = \<lparr>x = Num 0, y = Num 0, label = ''a'', width = Num 50, height = Num 20\<rparr>"

definition nodeB :: WeathermapNode where
  "nodeB = \<lparr>x = Num 100, y = Num 0, label = ''b'', width = Num 50, height = Num 20\<rparr>"

definition nodeCenter :: "WeathermapNode \<Rightarrow> Point2D" where
  "nodeCenter node =
     \<lparr>x = x node + width node / Num 2, y = y node + height node / Num 2\<rparr>"

text \<open>
  The block of \<open>placeEdges\<close> that calculates the bend: the two control points of an edge
  between the centers \<open>n1Center\<close> and \<open>n2Center\<close>. The sum and the difference that
  \<open>normalizeAngle\<close> is called with are rounded. The result is \<open>None\<close> when a call of
  \<open>normalizeAngle\<close> never returns.
\<close>

definition bendControls ::
  "Point2D \<Rightarrow> Point2D \<Rightarrow> WeathermapEdge \<Rightarrow> (Point2D option \<times> Point2D option) option" where
  "bendControls n1Center n2Center edge =
     (if truthy (bendDirection edge) \<and> truthy (bendMagnitude edge) then
        let n1N2Angle = Math_atan2 (y n1Center - y n2Center) (x n2Center - x n1Center);
            n2N1Angle = Math_atan2 (y n2Center - y n1Center) (x n1Center - x n2Center)
        in Option.bind
             (normalizeAngle (double (n1N2Angle + deg2rad (the (bendDirection edge)))))
             (\<lambda>n1N2BendAngle.
           Option.bind
             (normalizeAngle (double (n2N1Angle - deg2rad (the (bendDirection edge)))))
             (\<lambda>n2N1BendAngle.
             let control1Offset = polarToCartesian (Some n1N2BendAngle) (bendMagnitude edge);
                 control2Offset = polarToCartesian (Some n2N1BendAngle) (bendMagnitude edge)
             in Some
               (Some \<lparr>x = x n1Center + x control1Offset, y = y n1Center - y control1Offset\<rparr>,
                Some \<lparr>x = x n2Center + x control2Offset, y = y n2Center - y control2Offset\<rparr>)))
      else Some (None, None))"

text \<open>
  One call of \<open>makeAndPlaceEdge\<close> as \<open>placeEdges\<close> issues it: the segment and the metric
  that colors it.
\<close>

record EdgeSegment =
  segStart :: Point2D
  segControl1 :: "Point2D option"
  segControl2 :: "Point2D option"
  segEnd :: Point2D
  segMetric :: "string option"

text \<open>
  The body of the loop of \<open>placeEdges\<close> for an edge whose two nodes have been found: the
  segments it places, or \<open>None\<close> when it never returns.
\<close>

definition placeEdge ::
  "WeathermapNode \<Rightarrow> WeathermapNode \<Rightarrow> WeathermapEdge \<Rightarrow> EdgeSegment list option" where
  "placeEdge n1 n2 edge =
     (let n1Center = nodeCenter n1;
          n2Center = nodeCenter n2
      in map_option (\<lambda>(control1, control2).
           if truthyString (metric2Name edge) then
             let h = halveCubicBezier n1Center control1 control2 n2Center
             in [\<lparr>segStart = n1Center, segControl1 = Some (h ! 1), segControl2 = Some (h ! 2),
                  segEnd = h ! 3, segMetric = metricName edge\<rparr>,
                 \<lparr>segStart = h ! 3, segControl1 = Some (h ! 4), segControl2 = Some (h ! 5),
                  segEnd = n2Center, segMetric = metric2Name edge\<rparr>]
           else
             [\<lparr>segStart = n1Center, segControl1 = control1, segControl2 = control2,
               segEnd = n2Center, segMetric = metricName edge\<rparr>])
         (bendControls n1Center n2Center edge))"

section \<open>Strokes\<close>

record WeathermapStyle =
  name :: string
  strokeWidthArray :: "string option"
  dashArray :: "string option"

definition getWeathermapStyle ::
  "(string \<rightharpoonup> WeathermapStyle) \<Rightarrow> string option \<Rightarrow> WeathermapStyle option" where
  "getWeathermapStyle styleMap styleName' =
     (if \<not> truthyString styleName' then None else styleMap (the styleName'))"

text \<open>
  \<open>split(/[ ,]+/)\<close>: the pieces between the runs of spaces and commas; a run at the start
  or at the end of the string leaves an empty piece there.
\<close>

definition isSeparator :: "char \<Rightarrow> bool" where
  "isSeparator c = (c = CHR '' '' \<or> c = CHR '','')"

function pieces :: "string \<Rightarrow> string list" where
  "pieces s =
     (let piece = takeWhile (\<lambda>c. \<not> isSeparator c) s;
          rest = dropWhile (\<lambda>c. \<not> isSeparator c) s
      in if rest = [] then [piece]
         else piece # pieces (dropWhile isSeparator rest))"
  by pat_completeness auto
termination
proof (relation "measure length")
  show "wf (measure (length :: string \<Rightarrow> nat))" by simp
next
  fix s :: string and piece rest :: string
  assume rest: "rest = dropWhile (\<lambda>c. \<not> isSeparator c) s"
    and ne: "rest \<noteq> []"
  have "isSeparator (hd rest)"
    using hd_dropWhile [of "\<lambda>c. \<not> isSeparator c" s] rest ne by simp
  then have "dropWhile isSeparator rest = dropWhile isSeparator (tl rest)"
    using ne by (cases rest) simp_all
  moreover have "length (dropWhile isSeparator (tl rest)) \<le> length (tl rest)"
    by (rule length_dropWhile_le)
  moreover have "length (tl rest) < length rest"
    using ne by (cases rest) simp_all
  moreover have "length rest \<le> length s"
    unfolding rest by (rule length_dropWhile_le)
  ultimately show "(dropWhile isSeparator rest, s) \<in> measure length"
    by simp
qed

declare pieces.simps [simp del]

text \<open>
  The width pattern of an edge. \<open>Number.parseFloat\<close> is the parameter \<open>parseFloat\<close>;
  \<open>strokeWidth\<close> is the default width of the configuration. The second step is the
  \<open>push(...strokeWidths)\<close> of a pattern whose length is not odd.
\<close>

definition parsedStrokeWidths ::
  "(string \<Rightarrow> number) \<Rightarrow> number \<Rightarrow> WeathermapStyle option \<Rightarrow> number list" where
  "parsedStrokeWidths parseFloat configStrokeWidth edgeStyle =
     (case edgeStyle of
        None \<Rightarrow> [configStrokeWidth]
      | Some style \<Rightarrow>
          if truthyString (strokeWidthArray style)
          then map (\<lambda>p. parseFloat p) (pieces (the (strokeWidthArray style)))
          else [configStrokeWidth])"

definition doubledStrokeWidths :: "number list \<Rightarrow> number list" where
  "doubledStrokeWidths strokeWidths =
     (if length strokeWidths mod 2 \<noteq> 1 then strokeWidths @ strokeWidths else strokeWidths)"

definition offsetUnitVectorOf :: "number list \<Rightarrow> Point2D \<Rightarrow> Point2D \<Rightarrow> Point2D" where
  "offsetUnitVectorOf strokeWidths start endPoint =
     (if length strokeWidths > 1 then
        let direction = \<lparr>x = x start - x endPoint, y = y start - y endPoint\<rparr>;
            offsetVector = \<lparr>x = y direction, y = - x direction\<rparr>
        in unitVector offsetVector
      else \<lparr>x = Num 0, y = Num 0\<rparr>)"

definition totalStrokeWidthOf :: "number list \<Rightarrow> number" where
  "totalStrokeWidthOf strokeWidths = foldl (\<lambda>acc cur. acc + cur) (Num 0) strokeWidths"

text \<open>One path of the multistroke group: its \<open>stroke-width\<close> and the points of its \<open>d\<close>.\<close>

record Stroke =
  strokeWidth :: number
  strokeStart :: Point2D
  strokeControl1 :: "Point2D option"
  strokeControl2 :: "Point2D option"
  strokeEnd :: Point2D

text \<open>
  The loop \<open>for (let strokeWidth of strokeWidths)\<close>, with the running \<open>currentOffset\<close> and
  \<open>isSpacing\<close> as arguments, and \<open>w\<close> for the entry \<open>strokeWidth\<close>; the result is the
  list of the paths it appends, in order.
\<close>

fun strokeLoop ::
  "Point2D \<Rightarrow> Point2D \<Rightarrow> Point2D option \<Rightarrow> Point2D option \<Rightarrow> Point2D
     \<Rightarrow> number \<Rightarrow> bool \<Rightarrow> number list \<Rightarrow> Stroke list" where
  "strokeLoop offsetUnitVector start control1 control2 endPoint currentOffset isSpacing [] = []"
| "strokeLoop offsetUnitVector start control1 control2 endPoint currentOffset isSpacing
     (w # rest) =
     (let nowSpacing = (\<not> isSpacing)
      in if nowSpacing then
           strokeLoop offsetUnitVector start control1 control2 endPoint (currentOffset + w)
             nowSpacing rest
         else
           let xOffset = x offsetUnitVector * (currentOffset + w / Num 2);
               yOffset = y offsetUnitVector * (currentOffset + w / Num 2);
               stroke = \<lparr>strokeWidth = w,
                 strokeStart = \<lparr>x = x start + xOffset, y = y start + yOffset\<rparr>,
                 strokeControl1 = (case control1 of None \<Rightarrow> None
                    | Some c \<Rightarrow> Some \<lparr>x = x c + xOffset, y = y c + yOffset\<rparr>),
                 strokeControl2 = (case control2 of None \<Rightarrow> None
                    | Some c \<Rightarrow> Some \<lparr>x = x c + xOffset, y = y c + yOffset\<rparr>),
                 strokeEnd = \<lparr>x = x endPoint + xOffset, y = y endPoint + yOffset\<rparr>\<rparr>
           in stroke # strokeLoop offsetUnitVector start control1 control2 endPoint
                (currentOffset + w) nowSpacing rest)"

declare strokeLoop.simps(2) [simp del]

text \<open>
  The paths that \<open>makeAndPlaceEdge\<close> appends for a segment and a completed width pattern.
  \<open>isSpacing\<close> starts as \<open>true\<close> and is flipped before each entry is looked at.
\<close>

definition placeStrokes ::
  "number list \<Rightarrow> Point2D \<Rightarrow> Point2D option \<Rightarrow> Point2D option \<Rightarrow> Point2D \<Rightarrow> Stroke list" where
  "placeStrokes strokeWidths start control1 control2 endPoint =
     (let offsetUnitVector = offsetUnitVectorOf strokeWidths start endPoint;
          totalStrokeWidth = totalStrokeWidthOf strokeWidths;
          currentOffset = - totalStrokeWidth / Num 2
      in strokeLoop offsetUnitVector start control1 control2 endPoint currentOffset True
           strokeWidths)"

text \<open>
  \<open>makeAndPlaceEdge\<close>: the style is looked up, the width pattern is parsed and doubled,
  and the paths are placed. The color of the group, its title and the number label do not
  enter the paths and are left out. \<open>configStrokeWidth\<close> is \<open>state.config.strokeWidth\<close> and
  \<open>styleMap\<close> is \<open>state.styleMap\<close>.
\<close>

definition makeAndPlaceEdge ::
  "(string \<Rightarrow> number) \<Rightarrow> number \<Rightarrow> (string \<rightharpoonup> WeathermapStyle)
     \<Rightarrow> Point2D \<Rightarrow> Point2D option \<Rightarrow> Point2D option \<Rightarrow> Point2D \<Rightarrow> string option
     \<Rightarrow> Stroke list" where
  "makeAndPlaceEdge parseFloat configStrokeWidth styleMap start control1 control2 endPoint
     edgeStyleName =
     (let edgeStyle = getWeathermapStyle styleMap edgeStyleName;
          strokeWidths = doubledStrokeWidths
            (parsedStrokeWidths parseFloat configStrokeWidth edgeStyle)
      in placeStrokes strokeWidths start control1 control2 endPoint)"

text \<open>
  For the statements about strokes: the entries of a pattern at the even indices, which
  are its stroke entries; the base segment moved by \<open>off\<close> along \<open>axis\<close>, as one path; and
  the offset of the centerline of the \<open>k\<close>-th stroke of a pattern of numbers in closed
  form: minus half the sum of all entries, plus the entries before it, plus half its own
  width.
\<close>

fun evenEntries :: "'a list \<Rightarrow> 'a list" where
  "evenEntries [] = []"
| "evenEntries [a] = [a]"
| "evenEntries (a # b # rest) = a # evenEntries rest"

definition strokeAt ::
  "Point2D \<Rightarrow> number \<Rightarrow> number \<Rightarrow> Point2D \<Rightarrow> Point2D option \<Rightarrow> Point2D option \<Rightarrow> Point2D
     \<Rightarrow> Stroke" where
  "strokeAt axis off w start control1 control2 endPoint =
     \<lparr>strokeWidth = w,
      strokeStart = \<lparr>x = x start + x axis * off, y = y start + y axis * off\<rparr>,
      strokeControl1 = map_option (\<lambda>c. \<lparr>x = x c + x axis * off, y = y c + y axis * off\<rparr>) control1,
      strokeControl2 = map_option (\<lambda>c. \<lparr>x = x c + x axis * off, y = y c + y axis * off\<rparr>) control2,
      strokeEnd = \<lparr>x = x endPoint + x axis * off, y = y endPoint + y axis * off\<rparr>\<rparr>"

definition centerlineOffset :: "real list \<Rightarrow> nat \<Rightarrow> real" where
  "centerlineOffset rs k = - sum_list rs / 2 + sum_list (take (2 * k) rs) + rs ! (2 * k) / 2"

section \<open>Basic facts\<close>

lemma elemAt_in [simp]: "i < length xs \<Longrightarrow> elemAt xs i = Inr (xs ! i)"
  by (simp add: elemAt_def)

lemma bindE_Inr [simp]: "bindE (Inr v) f = f v"
  by (simp add: bindE_def)

lemma bindE_Inl [simp]: "bindE (Inl e) f = Inl e"
  by (simp add: bindE_def)

lemma number_le_le_not_less: "(a::number) \<le> b \<Longrightarrow> b \<le> c \<Longrightarrow> \<not> c < a"
  by (cases a; cases b; cases c) simp_all

lemma number_le_not_less: "(a::number) \<le> b \<Longrightarrow> \<not> b < a"
  by (cases a; cases b) simp_all

section \<open>Rounding to a double\<close>

lemma roundEven_bounds:
  "of_int (roundEven ya) - 1 / 2 \<le> ya" "ya \<le> of_int (roundEven ya) + 1 / 2"
proof -
  define n where "n = \<lfloor>ya\<rfloor>"
  define d where "d = ya - of_int n"
  have d: "0 \<le> d" "d < 1" unfolding d_def n_def by linarith+
  have ya: "ya = of_int n + d" by (simp add: d_def)
  have r: "roundEven ya = (if d < 1 / 2 then n else if 1 / 2 < d then n + 1
      else if even n then n else n + 1)"
    by (simp add: roundEven_def Let_def n_def d_def)
  have "of_int (roundEven ya) - 1 / 2 \<le> of_int n + d"
    unfolding r using d by auto
  then show "of_int (roundEven ya) - 1 / 2 \<le> ya" using ya by simp
  have "of_int n + d \<le> of_int (roundEven ya) + 1 / 2"
    unfolding r using d by auto
  then show "ya \<le> of_int (roundEven ya) + 1 / 2" using ya by simp
qed

lemma roundEven_of_int [simp]: "roundEven (of_int n) = n"
  by (simp add: roundEven_def)

lemma roundEven_mono: "ya \<le> z \<Longrightarrow> roundEven ya \<le> roundEven z"
proof (rule ccontr)
  assume le: "ya \<le> z" and "\<not> roundEven ya \<le> roundEven z"
  then have gt: "roundEven z + 1 \<le> roundEven ya" by simp
  then have "(of_int (roundEven z) :: real) + 1 \<le> of_int (roundEven ya)"
    by (metis of_int_1 of_int_add of_int_le_iff)
  with roundEven_bounds(1) [of ya] roundEven_bounds(2) [of z] le
  have eq: "ya = z" "ya = of_int (roundEven ya) - 1 / 2" "z = of_int (roundEven z) + 1 / 2"
    by linarith+
  then have "roundEven ya = roundEven z" by simp
  with gt show False by simp
qed

lemma roundEven_minus: "roundEven (- ya) = - roundEven ya"
proof -
  define n where "n = \<lfloor>ya\<rfloor>"
  define d where "d = ya - of_int n"
  have d: "0 \<le> d" "d < 1" unfolding d_def n_def by linarith+
  have ya: "ya = of_int n + d" by (simp add: d_def)
  show ?thesis
  proof (cases "d = 0")
    case True
    then have "ya = of_int n" by (simp add: ya)
    then have "roundEven ya = n" "roundEven (- ya) = - n"
      using roundEven_of_int [of n] roundEven_of_int [of "- n"] by simp_all
    then show ?thesis by simp
  next
    case False
    then have fl: "\<lfloor>- ya\<rfloor> = - n - 1"
      using d by (simp add: ya floor_unique)
    have fy: "\<lfloor>ya\<rfloor> = n" by (simp add: n_def)
    have fr: "- ya - of_int (- n - 1) = 1 - d" by (simp add: ya)
    have fr2: "ya - of_int n = d" by (simp add: d_def)
    show ?thesis
      unfolding roundEven_def Let_def fl fy fr fr2
      by (auto simp: field_simps)
  qed
qed

lemma roundEven_near_int:
  assumes "\<bar>t\<bar> < 1 / 2"
  shows "roundEven (of_int k + t) = k"
proof -
  show ?thesis
  proof (cases "0 \<le> t")
    case True
    then have "\<lfloor>of_int k + t\<rfloor> = k" using assms by (simp add: floor_unique)
    then show ?thesis using assms True by (simp add: roundEven_def Let_def)
  next
    case False
    then have "\<lfloor>of_int k + t\<rfloor> = k - 1" using assms by (simp add: floor_unique)
    then show ?thesis using assms False by (auto simp: roundEven_def Let_def)
  qed
qed

lemma two_powr_powi: "(2::real) powr (of_int k) = 2 powi k"
  by (simp add: powr_real_of_int')

lemma exponentOf_eq:
  assumes "2 powi e \<le> \<bar>xa\<bar>" "\<bar>xa\<bar> < 2 powi (e + 1)"
  shows "exponentOf xa = e"
proof -
  have pos: "0 < \<bar>xa\<bar>" using assms(1) by (smt (verit) zero_less_power_int)
  have "2 powr (of_int e) \<le> \<bar>xa\<bar> \<and> \<bar>xa\<bar> < 2 powr (of_int (e + 1))"
    using assms by (simp only: two_powr_powi)
  then have "2 powr (of_int e) \<le> \<bar>xa\<bar> \<and> \<bar>xa\<bar> < 2 powr (of_int e + 1)" by simp
  then have "\<lfloor>log 2 \<bar>xa\<bar>\<rfloor> = e"
    using floor_log_eq_powr_iff [of "\<bar>xa\<bar>" 2 e] pos by simp
  then show ?thesis by (simp add: exponentOf_def)
qed

lemma exponentOf_bounds:
  assumes "xa \<noteq> 0"
  shows "2 powi exponentOf xa \<le> \<bar>xa\<bar>" "\<bar>xa\<bar> < 2 powi (exponentOf xa + 1)"
proof -
  have pos: "0 < \<bar>xa\<bar>" using assms by simp
  have "2 powr (of_int (exponentOf xa)) \<le> \<bar>xa\<bar> \<and> \<bar>xa\<bar> < 2 powr (of_int (exponentOf xa) + 1)"
    using floor_log_eq_powr_iff [of "\<bar>xa\<bar>" 2 "exponentOf xa"] pos by (simp add: exponentOf_def)
  then have b: "2 powr (of_int (exponentOf xa)) \<le> \<bar>xa\<bar>"
    "\<bar>xa\<bar> < 2 powr (of_int (exponentOf xa + 1))"
    by simp_all
  show "2 powi exponentOf xa \<le> \<bar>xa\<bar>"
    using b(1) by (simp only: two_powr_powi)
  show "\<bar>xa\<bar> < 2 powi (exponentOf xa + 1)"
    using b(2) by (simp only: two_powr_powi)
qed

lemma toDouble_eval:
  assumes "2 powi e \<le> \<bar>xa\<bar>" "\<bar>xa\<bar> < 2 powi (e + 1)"
  shows "toDouble xa = of_int (roundEven (xa / 2 powi (e - 52))) * 2 powi (e - 52)"
proof -
  have "xa \<noteq> 0" using assms(1) by (smt (verit) zero_less_power_int)
  then show ?thesis by (simp add: toDouble_def exponentOf_eq [OF assms])
qed

lemma toDouble_0 [simp]: "toDouble 0 = 0"
  by (simp add: toDouble_def)

lemma toDouble_minus: "toDouble (- xa) = - toDouble xa"
  by (simp add: toDouble_def exponentOf_def roundEven_minus)

lemma ulp_pos [simp]: "0 < (2::real) powi k"
  by (simp add: zero_less_power_int)

lemma toDouble_range:
  assumes "0 < xa"
  shows "2 powi exponentOf xa \<le> toDouble xa" "toDouble xa \<le> 2 powi (exponentOf xa + 1)"
proof -
  let ?e = "exponentOf xa"
  let ?u = "(2::real) powi (?e - 52)"
  have x0: "xa \<noteq> 0" using assms by simp
  have b: "2 powi ?e \<le> xa" "xa < 2 powi (?e + 1)"
    using exponentOf_bounds [OF x0] assms by simp_all
  have lo: "2 powi ?e = of_int (2 ^ 52) * ?u"
    by (simp add: power_int_diff)
  have hi: "2 powi (?e + 1) = of_int (2 ^ 53) * ?u"
    by (simp add: power_int_diff power_int_add)
  have "of_int (2 ^ 52) \<le> xa / ?u"
    using b(1) lo by (simp add: field_simps)
  then have "roundEven (of_int (2 ^ 52)) \<le> roundEven (xa / ?u)"
    by (rule roundEven_mono)
  then have l: "(2 ^ 52 :: int) \<le> roundEven (xa / ?u)"
    by (simp only: roundEven_of_int)
  have "xa / ?u \<le> of_int (2 ^ 53)"
    using b(2) hi by (simp add: field_simps)
  then have "roundEven (xa / ?u) \<le> roundEven (of_int (2 ^ 53))"
    by (rule roundEven_mono)
  then have h: "roundEven (xa / ?u) \<le> (2 ^ 53 :: int)"
    by (simp only: roundEven_of_int)
  have t: "toDouble xa = of_int (roundEven (xa / ?u)) * ?u"
    using x0 by (simp add: toDouble_def)
  have "of_int (2 ^ 52) * ?u \<le> of_int (roundEven (xa / ?u)) * ?u"
    using l by (intro mult_right_mono) (simp_all only: of_int_le_iff, simp)
  then show "2 powi ?e \<le> toDouble xa" using lo t by simp
  have "of_int (roundEven (xa / ?u)) * ?u \<le> of_int (2 ^ 53) * ?u"
    using h by (intro mult_right_mono) (simp_all only: of_int_le_iff, simp)
  then show "toDouble xa \<le> 2 powi (?e + 1)" using hi t by simp
qed

lemma toDouble_pos: "0 < xa \<Longrightarrow> 0 < toDouble xa"
  using toDouble_range(1) [of xa] ulp_pos [of "exponentOf xa"] by linarith

lemma exponentOf_mono:
  assumes "0 < xa" "xa \<le> ya"
  shows "exponentOf xa \<le> exponentOf ya"
proof -
  have "log 2 xa \<le> log 2 ya" using assms by simp
  then show ?thesis using assms by (simp add: exponentOf_def floor_mono)
qed

lemma toDouble_mono_pos:
  assumes "0 < xa" "xa \<le> ya"
  shows "toDouble xa \<le> toDouble ya"
proof (cases "exponentOf xa = exponentOf ya")
  case True
  let ?u = "(2::real) powi (exponentOf ya - 52)"
  have "xa / ?u \<le> ya / ?u" using assms(2) by (simp add: divide_right_mono)
  then have "roundEven (xa / ?u) \<le> roundEven (ya / ?u)" by (rule roundEven_mono)
  then have "(of_int (roundEven (xa / ?u)) :: real) * ?u \<le> of_int (roundEven (ya / ?u)) * ?u"
    by (intro mult_right_mono) simp_all
  then show ?thesis using assms True by (simp add: toDouble_def)
next
  case False
  then have "exponentOf xa + 1 \<le> exponentOf ya"
    using exponentOf_mono [OF assms] by simp
  then have "(2::real) powi (exponentOf xa + 1) \<le> 2 powi exponentOf ya"
    by (intro power_int_increasing) simp_all
  moreover have "0 < ya" using assms by simp
  ultimately show ?thesis
    using toDouble_range(2) [OF assms(1)] toDouble_range(1) [of ya] by linarith
qed

lemma toDouble_mono:
  assumes "xa \<le> ya"
  shows "toDouble xa \<le> toDouble ya"
proof -
  consider (pp) "0 < xa" | (zz) "xa \<le> 0" "0 \<le> ya" | (nn) "ya < 0" using assms by linarith
  then show ?thesis
  proof cases
    case pp
    then show ?thesis using assms by (rule toDouble_mono_pos)
  next
    case zz
    have "toDouble xa \<le> 0"
    proof (cases "xa = 0")
      case True then show ?thesis by simp
    next
      case False
      then have "0 < toDouble (- xa)" using zz(1) by (intro toDouble_pos) simp
      then show ?thesis by (simp add: toDouble_minus)
    qed
    moreover have "0 \<le> toDouble ya"
    proof (cases "ya = 0")
      case True then show ?thesis by simp
    next
      case False
      then have "0 < toDouble ya" using zz(2) by (intro toDouble_pos) simp
      then show ?thesis by simp
    qed
    ultimately show ?thesis by simp
  next
    case nn
    then have "toDouble (- ya) \<le> toDouble (- xa)"
      using assms by (intro toDouble_mono_pos) simp_all
    then show ?thesis by (simp add: toDouble_minus)
  qed
qed

lemma toDouble_representable:
  assumes "\<bar>M\<bar> < 2 ^ 53"
  shows "toDouble (of_int M * 2 powi k) = of_int M * 2 powi k"
proof (cases "M = 0")
  case True
  then show ?thesis by simp
next
  case False
  let ?xa = "of_int M * 2 powi k :: real"
  let ?e = "exponentOf ?xa"
  have x0: "?xa \<noteq> 0" using False by simp
  have b: "2 powi ?e \<le> \<bar>?xa\<bar>"
    using exponentOf_bounds(1) [OF x0] .
  have "\<bar>of_int M :: real\<bar> < 2 ^ 53"
    using assms by (metis of_int_abs of_int_less_iff of_int_numeral of_int_power)
  then have "\<bar>?xa\<bar> < 2 ^ 53 * 2 powi k"
    by (simp add: abs_mult)
  also have "\<dots> = 2 powi (53 + k)"
    by (simp add: power_int_add)
  finally have "(2::real) powi ?e < 2 powi (53 + k)" using b by linarith
  then have "\<not> 53 + k \<le> ?e"
    using power_int_increasing [of "53 + k" ?e "2::real"] by auto
  then have j: "0 \<le> k - ?e + 52" by simp
  have "?xa / 2 powi (?e - 52) = of_int M * 2 powi (k - (?e - 52))"
    by (simp add: power_int_diff)
  also have "\<dots> = of_int M * 2 ^ nat (k - ?e + 52)"
    using j by (simp add: power_int_def algebra_simps)
  also have "\<dots> = of_int (M * 2 ^ nat (k - ?e + 52))"
    by simp
  finally have "roundEven (?xa / 2 powi (?e - 52)) = M * 2 ^ nat (k - ?e + 52)"
    by (simp only: roundEven_of_int)
  then have "toDouble ?xa = of_int (M * 2 ^ nat (k - ?e + 52)) * 2 powi (?e - 52)"
    using x0 by (simp only: toDouble_def if_False)
  also have "\<dots> = of_int M * (2 powi (k - ?e + 52) * 2 powi (?e - 52))"
    using j by (simp add: power_int_def)
  also have "\<dots> = ?xa"
    by (simp flip: power_int_add)
  finally show ?thesis .
qed

lemma toDouble_of_int:
  assumes "\<bar>n\<bar> < 2 ^ 53"
  shows "toDouble (of_int n) = of_int n"
  using toDouble_representable [OF assms, of 0] by simp

lemma toDouble_numeral [simp]:
  "toDouble 1 = 1" "toDouble 2 = 2" "toDouble 3 = 3" "toDouble 4 = 4" "toDouble 6 = 6"
  "toDouble 8 = 8" "toDouble 100 = 100" "toDouble 255 = 255" "toDouble 180 = 180"
  using toDouble_of_int [of 1] toDouble_of_int [of 2] toDouble_of_int [of 3]
    toDouble_of_int [of 4] toDouble_of_int [of 6] toDouble_of_int [of 8]
    toDouble_of_int [of 100] toDouble_of_int [of 255] toDouble_of_int [of 180]
  by simp_all

lemma pi_ge_3: "3 \<le> pi"
proof -
  have "sin (pi / 6) \<le> pi / 6" by (rule sin_x_le_x) simp
  then show ?thesis by (simp add: sin_30)
qed

lemma toDouble_pi_bounds: "3 \<le> toDouble pi" "toDouble pi \<le> 4"
proof -
  have "toDouble 3 \<le> toDouble pi" by (rule toDouble_mono) (rule pi_ge_3)
  then show "3 \<le> toDouble pi" by simp
  have "toDouble pi \<le> toDouble 4" by (rule toDouble_mono) (use pi_less_4 in simp)
  then show "toDouble pi \<le> 4" by simp
qed

lemma toDouble_two_pi_bounds: "6 \<le> toDouble (2 * toDouble pi)" "toDouble (2 * toDouble pi) \<le> 8"
proof -
  have "toDouble 6 \<le> toDouble (2 * toDouble pi)"
    by (rule toDouble_mono) (use toDouble_pi_bounds in simp)
  then show "6 \<le> toDouble (2 * toDouble pi)" by simp
  have "toDouble (2 * toDouble pi) \<le> toDouble 8"
    by (rule toDouble_mono) (use toDouble_pi_bounds in simp)
  then show "toDouble (2 * toDouble pi) \<le> 8" by simp
qed

lemma toDouble_between:
  assumes "of_int L * 2 powi k \<le> xa" "xa \<le> of_int U * 2 powi k" "\<bar>L\<bar> < 2 ^ 53" "\<bar>U\<bar> < 2 ^ 53"
  shows "of_int L * 2 powi k \<le> toDouble xa" "toDouble xa \<le> of_int U * 2 powi k"
proof -
  have "toDouble (of_int L * 2 powi k) \<le> toDouble xa" by (rule toDouble_mono) (rule assms(1))
  then show "of_int L * 2 powi k \<le> toDouble xa"
    by (simp only: toDouble_representable [OF assms(3)])
  have "toDouble xa \<le> toDouble (of_int U * 2 powi k)" by (rule toDouble_mono) (rule assms(2))
  then show "toDouble xa \<le> of_int U * 2 powi k"
    by (simp only: toDouble_representable [OF assms(4)])
qed

lemma toDouble_eq_0_iff [simp]: "toDouble r = 0 \<longleftrightarrow> r = 0"
proof
  assume z: "toDouble r = 0"
  show "r = 0"
  proof (rule ccontr)
    assume "r \<noteq> 0"
    then consider "0 < r" | "0 < - r" by linarith
    then show False
    proof cases
      case 1
      then show False using toDouble_pos [of r] z by simp
    next
      case 2
      then show False using toDouble_pos [of "- r"] z by (simp add: toDouble_minus)
    qed
  qed
qed simp

lemma double_pos: "Num 0 < n \<Longrightarrow> Num 0 < double n"
  by (cases n) (simp_all add: toDouble_pos)

lemma double_eq_0_iff [simp]: "double n = Num 0 \<longleftrightarrow> n = Num 0"
  by (cases n) simp_all

lemma double_eq_NaN_iff [simp]: "double n = NaN \<longleftrightarrow> n = NaN"
  by (cases n) simp_all

section \<open>The gradient at and beyond its ends\<close>

lemma sorted_first_le_last:
  assumes "sortedByPosition ss" "1 < length ss"
  shows "position (ss ! 0) \<le> position (last ss)"
proof -
  have "position (ss ! 0) \<le> position (ss ! (length ss - 1))"
    using assms sorted_wrt_nth_less [of "\<lambda>a b. position a \<le> position b" ss 0 "length ss - 1"]
    by (simp add: sortedByPosition_def)
  moreover have "ss \<noteq> []" using assms(2) by auto
  ultimately show ?thesis by (simp add: last_conv_nth)
qed

lemma above_last_not_below_first:
  assumes "sortedByPosition ss" "ss \<noteq> []" "v \<ge> position (last ss)"
  shows "\<not> v < position (ss ! 0)"
proof (cases "1 < length ss")
  case True
  then show ?thesis
    using sorted_first_le_last [OF assms(1) True] assms(3) number_le_le_not_less by blast
next
  case False
  with assms(2) have "length ss = 1" by (cases ss) auto
  then have "last ss = ss ! 0" using assms(2) by (simp add: last_conv_nth)
  then show ?thesis using assms(3) number_le_not_less by simp
qed

lemma linear_below_first:
  "ss \<noteq> [] \<Longrightarrow> v < position (ss ! 0) \<Longrightarrow> linearColorForValue ft ss ct v = Inr (colorOf ct (ss ! 0))"
  by (simp add: linearColorForValue_def)

lemma linear_above_last:
  "ss \<noteq> [] \<Longrightarrow> \<not> v < position (ss ! 0) \<Longrightarrow> v \<ge> position (last ss) \<Longrightarrow>
   linearColorForValue ft ss ct v = Inr (colorOf ct (last ss))"
  by (simp add: linearColorForValue_def last_conv_nth)

lemma step_below_first:
  "ss \<noteq> [] \<Longrightarrow> v < position (ss ! 0) \<Longrightarrow> stepColorForValue ss ct v = Inr (colorOf ct (ss ! 0))"
  by (simp add: stepColorForValue_def)

lemma step_above_last:
  "ss \<noteq> [] \<Longrightarrow> \<not> v < position (ss ! 0) \<Longrightarrow> v \<ge> position (last ss) \<Longrightarrow>
   stepColorForValue ss ct v = Inr (colorOf ct (last ss))"
  by (simp add: stepColorForValue_def last_conv_nth)

text \<open>
  Claim C1. For a linear or stepped gradient whose stop list is non-empty and sorted
  ascending by position, \<open>gradientColorForValue\<close> returns the first stop's color of the
  requested channel, unchanged, for every value below the first position, and the last
  stop's color, unchanged, for every value at or above the last position.
\<close>

theorem gradient_boundary_clamp:
  assumes "stops g \<noteq> []" and "sortedByPosition (stops g)"
    and "type g = ''linear'' \<or> type g = ''steps''"
  shows "(v < position (stops g ! 0) \<longrightarrow>
            gradientColorForValue ft g ct v = Inr (colorOf ct (stops g ! 0))) \<and>
         (v \<ge> position (last (stops g)) \<longrightarrow>
            gradientColorForValue ft g ct v = Inr (colorOf ct (last (stops g))))"
proof (intro conjI impI)
  assume "v < position (stops g ! 0)"
  then show "gradientColorForValue ft g ct v = Inr (colorOf ct (stops g ! 0))"
    using assms(1,3)
    by (auto simp: gradientColorForValue_def linear_below_first step_below_first)
next
  assume a: "v \<ge> position (last (stops g))"
  have "\<not> v < position (stops g ! 0)"
    using above_last_not_below_first [OF assms(2) assms(1) a] .
  then show "gradientColorForValue ft g ct v = Inr (colorOf ct (last (stops g)))"
    using assms(1,3) a
    by (auto simp: gradientColorForValue_def linear_above_last step_above_last)
qed

theorem gradient_boundary_clamp_witness:
  "gradientColorForValue noFractionText \<lparr>type = ''linear'', stops = exampleStops\<rparr> StrokeColor (Num (- 5))
     = Inr ''#000000'' \<and>
   gradientColorForValue noFractionText \<lparr>type = ''steps'', stops = exampleStops\<rparr> FillColor (Num 100)
     = Inr ''#405060''"
  using gradient_boundary_clamp
      [of "\<lparr>type = ''linear'', stops = exampleStops\<rparr>" "Num (- 5)" noFractionText StrokeColor]
    gradient_boundary_clamp
      [of "\<lparr>type = ''steps'', stops = exampleStops\<rparr>" "Num 100" noFractionText FillColor]
  by (simp add: exampleStops_def sortedByPosition_def)

section \<open>The emergency color\<close>

lemma linearLoop_no_bracket:
  "(\<forall>j\<ge>i. \<not> bracketsAt ss v j) \<Longrightarrow> linearLoop ft ss ct v i = Inr emergencyColor"
proof (induction ft ss ct v i rule: linearLoop.induct)
  case (1 ft ss ct v i)
  show ?case
  proof (cases "i + 1 < length ss")
    case True
    from "1.prems" have nb: "\<not> bracketsAt ss v i" by simp
    with True have nb': "\<not> (v \<ge> position (ss ! i) \<and> v < position (ss ! (i + 1)))"
      by (simp add: bracketsAt_def)
    have "linearLoop ft ss ct v (i + 1) = Inr emergencyColor"
      using "1.IH" [of "ss ! i" "ss ! (i + 1)"] True nb' "1.prems" by simp
    then show ?thesis
      using True nb' by (subst linearLoop.simps) auto
  next
    case False
    then show ?thesis by (subst linearLoop.simps) simp
  qed
qed

lemma stepLoop_no_bracket:
  "(\<forall>j\<ge>i. \<not> bracketsAt ss v j) \<Longrightarrow> stepLoop ss ct v i = Inr emergencyColor"
proof (induction ss ct v i rule: stepLoop.induct)
  case (1 ss ct v i)
  show ?case
  proof (cases "i + 1 < length ss")
    case True
    from "1.prems" have nb: "\<not> bracketsAt ss v i" by simp
    with True have nb': "\<not> (v \<ge> position (ss ! i) \<and> v < position (ss ! (i + 1)))"
      by (simp add: bracketsAt_def)
    have "stepLoop ss ct v (i + 1) = Inr emergencyColor"
      using "1.IH" [of "ss ! i" "ss ! (i + 1)"] True nb' "1.prems" by simp
    then show ?thesis
      using True nb' by (subst stepLoop.simps) auto
  next
    case False
    then show ?thesis by (subst stepLoop.simps) simp
  qed
qed

lemma linear_search:
  "ss \<noteq> [] \<Longrightarrow> \<not> v < position (ss ! 0) \<Longrightarrow> \<not> v \<ge> position (last ss) \<Longrightarrow>
   linearColorForValue ft ss ct v = linearLoop ft ss ct v 0"
  by (simp add: linearColorForValue_def last_conv_nth)

lemma step_search:
  "ss \<noteq> [] \<Longrightarrow> \<not> v < position (ss ! 0) \<Longrightarrow> \<not> v \<ge> position (last ss) \<Longrightarrow>
   stepColorForValue ss ct v = stepLoop ss ct v 0"
  by (simp add: stepColorForValue_def last_conv_nth)

text \<open>
  Claim C8. \<open>gradientColorForValue\<close> returns the emergency color, and does not throw, when
  the stop list is empty, when the gradient type is neither \<open>"linear"\<close> nor \<open>"steps"\<close>, and
  when the search for a bracketing pair, which runs once the two tests at the ends have
  failed, finds none. The last case happens: a \<open>NaN\<close> value fails every comparison.
\<close>

theorem emergency_color_cases:
  assumes "stops g = []
     \<or> (type g \<noteq> ''linear'' \<and> type g \<noteq> ''steps'')
     \<or> (\<not> v < position (stops g ! 0) \<and> \<not> v \<ge> position (last (stops g))
          \<and> (\<forall>i. \<not> bracketsAt (stops g) v i))"
  shows "gradientColorForValue ft g ct v = Inr emergencyColor"
proof (cases "stops g = []")
  case True
  then show ?thesis
    by (simp add: gradientColorForValue_def linearColorForValue_def stepColorForValue_def)
next
  case ne: False
  show ?thesis
  proof (cases "type g \<noteq> ''linear'' \<and> type g \<noteq> ''steps''")
    case True
    then show ?thesis by (simp add: gradientColorForValue_def)
  next
    case False
    with assms ne have s: "\<not> v < position (stops g ! 0)" "\<not> v \<ge> position (last (stops g))"
      "\<forall>i. \<not> bracketsAt (stops g) v i" by auto
    have "linearColorForValue ft (stops g) ct v = Inr emergencyColor"
      using linear_search [OF ne s(1,2)] linearLoop_no_bracket [of 0 "stops g" v ft ct] s(3) by simp
    moreover have "stepColorForValue (stops g) ct v = Inr emergencyColor"
      using step_search [OF ne s(1,2)] stepLoop_no_bracket [of 0 "stops g" v ct] s(3) by simp
    ultimately show ?thesis by (simp add: gradientColorForValue_def)
  qed
qed

theorem emergency_color_cases_witness:
  "gradientColorForValue noFractionText \<lparr>type = ''linear'', stops = []\<rparr> StrokeColor (Num 5) = Inr ''pink'' \<and>
   gradientColorForValue noFractionText \<lparr>type = ''radial'', stops = exampleStops\<rparr> StrokeColor (Num 5) = Inr ''pink'' \<and>
   gradientColorForValue noFractionText \<lparr>type = ''linear'', stops = exampleStops\<rparr> StrokeColor NaN = Inr ''pink''"
  using emergency_color_cases [of "\<lparr>type = ''linear'', stops = []\<rparr>" "Num 5" noFractionText StrokeColor]
    emergency_color_cases [of "\<lparr>type = ''radial'', stops = exampleStops\<rparr>" "Num 5" noFractionText StrokeColor]
    emergency_color_cases [of "\<lparr>type = ''linear'', stops = exampleStops\<rparr>" NaN noFractionText StrokeColor]
  by (simp add: emergencyColor_def bracketsAt_def exampleStops_def)

lemma linearLoop_never_throws: "\<exists>c. linearLoop ft ss ct v i = Inr c"
proof (induction ft ss ct v i rule: linearLoop.induct)
  case (1 ft ss ct v i)
  show ?case
  proof (cases "i + 1 < length ss")
    case True
    show ?thesis
    proof (cases "v \<ge> position (ss ! i) \<and> v < position (ss ! (i + 1))")
      case b: True
      then show ?thesis using True by (subst linearLoop.simps) auto
    next
      case b: False
      have "\<exists>c. linearLoop ft ss ct v (i + 1) = Inr c"
        using "1.IH" [of "ss ! i" "ss ! (i + 1)"] True b by simp
      then show ?thesis using True b by (subst linearLoop.simps) auto
    qed
  next
    case False
    then show ?thesis by (subst linearLoop.simps) simp
  qed
qed

lemma stepLoop_never_throws: "\<exists>c. stepLoop ss ct v i = Inr c"
proof (induction ss ct v i rule: stepLoop.induct)
  case (1 ss ct v i)
  show ?case
  proof (cases "i + 1 < length ss")
    case True
    show ?thesis
    proof (cases "v \<ge> position (ss ! i) \<and> v < position (ss ! (i + 1))")
      case b: True
      then show ?thesis using True by (subst stepLoop.simps) auto
    next
      case b: False
      have "\<exists>c. stepLoop ss ct v (i + 1) = Inr c"
        using "1.IH" [of "ss ! i" "ss ! (i + 1)"] True b by simp
      then show ?thesis using True b by (subst stepLoop.simps) auto
    qed
  next
    case False
    then show ?thesis by (subst stepLoop.simps) simp
  qed
qed

lemma gradientColorForValue_never_throws: "\<exists>c. gradientColorForValue ft g ct v = Inr c"
proof -
  have "\<exists>c. linearColorForValue ft ss ct v = Inr c" for ss
    using linearLoop_never_throws [of ft ss ct v 0]
    by (cases "ss = []") (auto simp: linearColorForValue_def)
  moreover have "\<exists>c. stepColorForValue ss ct v = Inr c" for ss
    using stepLoop_never_throws [of ss ct v 0]
    by (cases "ss = []") (auto simp: stepColorForValue_def)
  ultimately show ?thesis by (simp add: gradientColorForValue_def)
qed

section \<open>The steps mode\<close>

lemma number_not_less_ge: "a \<noteq> NaN \<Longrightarrow> b \<noteq> NaN \<Longrightarrow> \<not> (a::number) < b \<Longrightarrow> a \<ge> b"
  by (cases a; cases b) simp_all

lemma number_not_ge_less: "a \<noteq> NaN \<Longrightarrow> b \<noteq> NaN \<Longrightarrow> \<not> (a::number) \<ge> b \<Longrightarrow> a < b"
  by (cases a; cases b) simp_all

lemma stepLoop_finds:
  "v \<noteq> NaN \<Longrightarrow> \<forall>s\<in>set ss. position s \<noteq> NaN \<Longrightarrow>
   i < length ss \<Longrightarrow> v \<ge> position (ss ! i) \<Longrightarrow> \<not> v \<ge> position (last ss) \<Longrightarrow>
     \<exists>j. bracketsAt ss v j \<and> stepLoop ss ct v i = Inr (colorOf ct (ss ! j))"
proof (induction ss ct v i rule: stepLoop.induct)
  case (1 ss ct v i)
  have ne: "ss \<noteq> []" using "1.prems"(3) by auto
  show ?case
  proof (cases "i + 1 < length ss")
    case True
    show ?thesis
    proof (cases "v < position (ss ! (i + 1))")
      case b: True
      have "bracketsAt ss v i"
        using True b "1.prems"(4) by (simp add: bracketsAt_def)
      moreover have "stepLoop ss ct v i = Inr (colorOf ct (ss ! i))"
        using True b "1.prems"(4) by (subst stepLoop.simps) simp
      ultimately show ?thesis by blast
    next
      case b: False
      have "position (ss ! (i + 1)) \<noteq> NaN"
        using "1.prems"(2) True by simp
      then have ge: "v \<ge> position (ss ! (i + 1))"
        using number_not_less_ge [OF "1.prems"(1) _ b] by simp
      have "\<exists>j. bracketsAt ss v j \<and> stepLoop ss ct v (i + 1) = Inr (colorOf ct (ss ! j))"
        using "1.IH" [of "ss ! i" "ss ! (i + 1)"] True b "1.prems"(1,2,5) ge by simp
      moreover have "stepLoop ss ct v i = stepLoop ss ct v (i + 1)"
        using True b by (subst stepLoop.simps) simp
      ultimately show ?thesis by simp
    qed
  next
    case False
    with "1.prems"(3) have "i = length ss - 1" by simp
    then have "ss ! i = last ss" using ne by (simp add: last_conv_nth)
    with "1.prems"(4,5) show ?thesis by simp
  qed
qed

text \<open>
  Claim C10, amended. For a non-empty stop list sorted ascending by position, a value that
  is not \<open>NaN\<close> and positions that are not \<open>NaN\<close>, the steps mode returns the color of
  some stop of the list, unchanged, and does not reach the return of the emergency color
  after the loop: it returns at one of the two ends or inside the loop at a bracketing
  pair.
\<close>

theorem step_returns_stop_color:
  assumes "ss \<noteq> []" and "sortedByPosition ss"
    and "v \<noteq> NaN" and "\<forall>s\<in>set ss. position s \<noteq> NaN"
  shows "(\<exists>s\<in>set ss. stepColorForValue ss ct v = Inr (colorOf ct s)) \<and>
         (v < position (ss ! 0) \<or> v \<ge> position (last ss) \<or>
          (\<exists>j. bracketsAt ss v j \<and> stepColorForValue ss ct v = Inr (colorOf ct (ss ! j))))"
proof -
  have first: "ss ! 0 \<in> set ss" and lst: "last ss \<in> set ss"
    using assms(1) by simp_all
  consider (below) "v < position (ss ! 0)"
    | (above) "\<not> v < position (ss ! 0)" "v \<ge> position (last ss)"
    | (inside) "\<not> v < position (ss ! 0)" "\<not> v \<ge> position (last ss)"
    by blast
  then show ?thesis
  proof cases
    case below
    then show ?thesis using step_below_first [OF assms(1) below] first by auto
  next
    case above
    then show ?thesis using step_above_last [OF assms(1) above] lst by auto
  next
    case inside
    have "position (ss ! 0) \<noteq> NaN" using assms(4) first by blast
    then have ge: "v \<ge> position (ss ! 0)"
      using number_not_less_ge [OF assms(3) _ inside(1)] by simp
    obtain j where j: "bracketsAt ss v j" "stepLoop ss ct v 0 = Inr (colorOf ct (ss ! j))"
      using stepLoop_finds [OF assms(3,4) _ ge inside(2), of ct] assms(1) by auto
    have r: "stepColorForValue ss ct v = Inr (colorOf ct (ss ! j))"
      using step_search [OF assms(1) inside] j(2) by simp
    moreover have "ss ! j \<in> set ss"
      using j(1) by (simp add: bracketsAt_def)
    ultimately show ?thesis using j(1) by blast
  qed
qed

theorem step_returns_stop_color_witness:
  "stepColorForValue exampleStops StrokeColor (Num 25) = Inr ''#000000''"
  using step_returns_stop_color [of exampleStops "Num 25" StrokeColor]
  by (auto simp: exampleStops_def sortedByPosition_def bracketsAt_def less_Suc_eq)

text \<open>
  The claim C10 as stated fails: with the sorted, non-empty example list and the value
  \<open>NaN\<close>, and with a single stop at position \<open>NaN\<close> and the value 5, the steps mode
  returns the emergency color, which is the color of no stop.
\<close>

theorem step_fallback_counterexample:
  "exampleStops \<noteq> [] \<and> sortedByPosition exampleStops \<and>
   stepColorForValue exampleStops StrokeColor NaN = Inr ''pink'' \<and>
   ''pink'' \<notin> colorOf StrokeColor ` set exampleStops \<and>
   sortedByPosition [\<lparr>position = NaN, strokeColor = ''#000000'', fillColor = ''#000000'',
       showLegendLabel = True\<rparr>] \<and>
   stepColorForValue [\<lparr>position = NaN, strokeColor = ''#000000'', fillColor = ''#000000'',
       showLegendLabel = True\<rparr>] StrokeColor (Num 5) = Inr ''pink''"
  by (simp add: exampleStops_def sortedByPosition_def stepColorForValue_def stepLoop.simps
      emergencyColor_def)

section \<open>Divisions of the linear mode\<close>

lemma bracket_positions:
  "(v::number) \<ge> p \<Longrightarrow> v < q \<Longrightarrow> p < q \<and> Num 0 < q - p"
  by (cases v; cases p; cases q) simp_all

lemma lerpDivisors_positive:
  "v \<ge> p \<Longrightarrow> v < q \<Longrightarrow> \<forall>d\<in>set (lerpDivisors v p q f t). Num 0 < d"
  using bracket_positions [of p v q] by (simp add: lerpDivisors_def double_pos)

lemma linearLoopDivisors_positive:
  "\<forall>d\<in>set (linearLoopDivisors ss ct v i). Num 0 < d"
proof (induction ss ct v i rule: linearLoopDivisors.induct)
  case (1 ss ct v i)
  show ?case
  proof (cases "i + 1 < length ss")
    case True
    show ?thesis
    proof (cases "v \<ge> position (ss ! i) \<and> v < position (ss ! (i + 1))")
      case b: True
      then have "\<forall>d\<in>set (interpolatedDivisors (ss ! i) (ss ! (i + 1)) ct v). Num 0 < d"
        using lerpDivisors_positive [of "position (ss ! i)" v "position (ss ! (i + 1))"]
        by (auto simp: interpolatedDivisors_def Let_def)
      then show ?thesis using True b by (subst linearLoopDivisors.simps) simp
    next
      case b: False
      then have "linearLoopDivisors ss ct v i = linearLoopDivisors ss ct v (i + 1)"
        using True by (subst linearLoopDivisors.simps) auto
      then show ?thesis using True b "1.IH" by simp
    qed
  next
    case False
    then show ?thesis by (subst linearLoopDivisors.simps) simp
  qed
qed

text \<open>
  Claim C9. For every stop list, sorted or not, every division executed by the linear
  resolution has a divisor greater than zero; the test of the loop gives
  \<open>stops[i].position < stops[i+1].position\<close>, so that the divisor
  \<open>sourceMax - sourceMin\<close> of \<open>lerp\<close> is positive, also once rounded; and \<open>lerp\<close> returns
  \<open>targetMin\<close> without dividing when \<open>targetMin === targetMax\<close>.
\<close>

theorem linear_divisions_nonzero:
  "(\<forall>d\<in>set (linearDivisors ss ct v). Num 0 < d) \<and>
   (bracketsAt ss v i \<longrightarrow>
      position (ss ! i) < position (ss ! (i + 1)) \<and>
      Num 0 < position (ss ! (i + 1)) - position (ss ! i)) \<and>
   (strictEq targetMin targetMax \<longrightarrow>
      lerp v sourceMin sourceMax targetMin targetMax = targetMin \<and>
      lerpDivisors v sourceMin sourceMax targetMin targetMax = [])"
proof (intro conjI impI)
  show "\<forall>d\<in>set (linearDivisors ss ct v). Num 0 < d"
    using linearLoopDivisors_positive [of ss ct v 0] by (simp add: linearDivisors_def)
next
  assume b: "bracketsAt ss v i"
  then show "position (ss ! i) < position (ss ! (i + 1))"
    and "Num 0 < position (ss ! (i + 1)) - position (ss ! i)"
    using bracket_positions [of "position (ss ! i)" v "position (ss ! (i + 1))"]
    by (simp_all add: bracketsAt_def)
next
  assume "strictEq targetMin targetMax"
  then show "lerp v sourceMin sourceMax targetMin targetMax = targetMin"
    and "lerpDivisors v sourceMin sourceMax targetMin targetMax = []"
    by (simp_all add: lerp_def lerpDivisors_def)
qed

theorem linear_divisions_nonzero_witness:
  "linearDivisors duplicateStops StrokeColor (Num 60) = [Num 80] \<and>
   Num 0 < Num 80 \<and>
   bracketsAt duplicateStops (Num 60) 2 \<and>
   Num 0 < position (duplicateStops ! 3) - position (duplicateStops ! 2) \<and>
   strictEq (Num 255) (Num 255) \<and> lerp (Num 60) (Num 0) (Num 80) (Num 255) (Num 255) = Num 255"
  using linear_divisions_nonzero [of duplicateStops StrokeColor "Num 60" 2 "Num 255" "Num 255" "Num 0" "Num 80"]
  using toDouble_of_int [of 80]
  by (simp add: linearDivisors_def duplicateStops_def linearLoopDivisors.simps
      interpolatedDivisors_def lerpDivisors_def substr_def parseInt16_def isWhiteSpace_def
      isHexDigit_def hexDigitValue_def hexValue_def bracketsAt_def)

section \<open>The linear mode\<close>

lemma hexDigit_facts:
  assumes "isHexDigit c"
  shows "the (hexDigitValue c) < 16" and "\<not> isWhiteSpace c" and "c \<noteq> CHR ''+''"
    and "c \<noteq> CHR ''-''" and "c \<noteq> CHR ''x''" and "c \<noteq> CHR ''X''"
  using assms
  by (auto simp: isHexDigit_def hexDigitValue_def isWhiteSpace_def split: if_splits)

lemma parseInt16_pair:
  assumes "isHexDigit c1" "isHexDigit c2"
  shows "parseInt16 [c1, c2] = Num (real (16 * the (hexDigitValue c1) + the (hexDigitValue c2)))"
  using assms hexDigit_facts [OF assms(1)] hexDigit_facts [OF assms(2)]
  by (simp add: parseInt16_def hexValue_def)

lemma hexColor_shape:
  assumes "isHexColor c"
  obtains h1 h2 h3 h4 h5 h6 where "c = [CHR ''#'', h1, h2, h3, h4, h5, h6]"
    and "isHexDigit h1" "isHexDigit h2" "isHexDigit h3" "isHexDigit h4" "isHexDigit h5"
    "isHexDigit h6"
proof -
  from assms have len: "length c = 7" by (simp add: isHexColor_def)
  then obtain c0 h1 h2 h3 h4 h5 h6 where c: "c = [c0, h1, h2, h3, h4, h5, h6]"
    by (auto simp: length_Suc_conv eval_nat_numeral)
  with assms show ?thesis
    using that [of h1 h2 h3 h4 h5 h6] by (simp add: isHexColor_def)
qed

lemma hexColor_channels:
  assumes "isHexColor c"
  shows "parseInt16 (substr 1 2 c) = Num (real (hexPair c 1))"
    and "parseInt16 (substr 3 2 c) = Num (real (hexPair c 3))"
    and "parseInt16 (substr 5 2 c) = Num (real (hexPair c 5))"
    and "hexPair c 1 \<le> 255" and "hexPair c 3 \<le> 255" and "hexPair c 5 \<le> 255"
proof -
  obtain h1 h2 h3 h4 h5 h6 where c: "c = [CHR ''#'', h1, h2, h3, h4, h5, h6]"
    and h: "isHexDigit h1" "isHexDigit h2" "isHexDigit h3" "isHexDigit h4" "isHexDigit h5"
    "isHexDigit h6"
    using hexColor_shape [OF assms] by blast
  show "parseInt16 (substr 1 2 c) = Num (real (hexPair c 1))"
    using parseInt16_pair [OF h(1,2)] by (simp add: c substr_def hexPair_def)
  show "parseInt16 (substr 3 2 c) = Num (real (hexPair c 3))"
    using parseInt16_pair [OF h(3,4)] by (simp add: c substr_def hexPair_def eval_nat_numeral)
  show "parseInt16 (substr 5 2 c) = Num (real (hexPair c 5))"
    using parseInt16_pair [OF h(5,6)] by (simp add: c substr_def hexPair_def eval_nat_numeral)
  show "hexPair c 1 \<le> 255"
    using hexDigit_facts(1) [OF h(1)] hexDigit_facts(1) [OF h(2)] by (simp add: c hexPair_def)
  show "hexPair c 3 \<le> 255"
    using hexDigit_facts(1) [OF h(3)] hexDigit_facts(1) [OF h(4)]
    by (simp add: c hexPair_def eval_nat_numeral)
  show "hexPair c 5 \<le> 255"
    using hexDigit_facts(1) [OF h(5)] hexDigit_facts(1) [OF h(6)]
    by (simp add: c hexPair_def eval_nat_numeral)
qed

lemma lerp_in_bracket:
  assumes "a \<le> v" "v < b" "f \<noteq> t"
  shows "lerp (Num v) (Num a) (Num b) (Num f) (Num t)
         = Num (toDouble (f + toDouble (toDouble (toDouble (v - a) / toDouble (b - a))
                                          * toDouble (t - f))))"
  using assms by (simp add: lerp_def Let_def)

lemma lerp_same: "lerp v a b (Num f) (Num f) = Num f"
  by (simp add: lerp_def)

lemma doubleFraction_in_bracket:
  assumes "a \<le> v" "v < b"
  shows "doubleFraction v a b = toDouble (toDouble (v - a) / toDouble (b - a))"
    and "0 \<le> doubleFraction v a b" and "doubleFraction v a b \<le> 1"
proof -
  let ?q = "toDouble (v - a) / toDouble (b - a)"
  have n: "0 \<le> toDouble (v - a)" using toDouble_mono [of 0 "v - a"] assms by simp
  have d: "0 < toDouble (b - a)" using toDouble_pos [of "b - a"] assms by simp
  have nd: "toDouble (v - a) \<le> toDouble (b - a)" by (rule toDouble_mono) (use assms in simp)
  have "0 \<le> ?q" using n d by simp
  then have lo: "0 \<le> toDouble ?q" using toDouble_mono [of 0 ?q] by simp
  have "?q \<le> 1" using nd d by simp
  then have hi: "toDouble ?q \<le> 1" using toDouble_mono [of ?q 1] by simp
  show "doubleFraction v a b = toDouble ?q" using lo hi by (simp add: doubleFraction_def)
  show "0 \<le> doubleFraction v a b" "doubleFraction v a b \<le> 1"
    by (simp_all add: doubleFraction_def)
qed

lemma floor_text: "numberText ft (Math_floor (Num z)) = intText \<lfloor>z\<rfloor>"
  by simp

lemma toDouble_channel:
  assumes "f \<le> 255" "t \<le> 255"
  shows "toDouble (real f) = real f" and "toDouble (real t - real f) = real t - real f"
proof -
  show "toDouble (real f) = real f"
    using toDouble_of_int [of "int f"] assms by simp
  have "\<bar>int t - int f\<bar> < 2 ^ 53" using assms by simp
  then show "toDouble (real t - real f) = real t - real f"
    using toDouble_of_int [of "int t - int f"] by simp
qed

lemma channel_lerp:
  assumes "a \<le> v" "v < b" "f \<le> 255" "t \<le> 255"
  shows "Math_floor (lerp (Num v) (Num a) (Num b) (Num (real f)) (Num (real t)))
         = Num (of_int (doubleChannel f t (doubleFraction v a b)))"
proof (cases "f = t")
  case True
  then show ?thesis
    using toDouble_channel(1) [OF assms(3,3)] by (simp add: lerp_same doubleChannel_def)
next
  case False
  then have "real f \<noteq> real t" by simp
  then show ?thesis
    using lerp_in_bracket [OF assms(1,2)] doubleFraction_in_bracket(1) [OF assms(1,2)]
    by (simp add: doubleChannel_def)
qed

lemma doubleChannel_range:
  assumes "0 \<le> q" "q \<le> 1" "f \<le> 255" "t \<le> 255"
  shows "int (min f t) \<le> doubleChannel f t q" and "doubleChannel f t q \<le> int (max f t)"
proof -
  define D where "D = real t - real f"
  define m where "m = toDouble (q * D)"
  have D: "toDouble (real t - real f) = D"
    unfolding D_def by (rule toDouble_channel(2) [OF assms(3,4)])
  have DD: "toDouble D = D" using D by (simp add: D_def)
  have f: "toDouble (real f) = real f" by (rule toDouble_channel(1) [OF assms(3,3)])
  have t: "toDouble (real t) = real t" by (rule toDouble_channel(1) [OF assms(4,4)])
  have s: "real (min f t) \<le> toDouble (real f + m) \<and> toDouble (real f + m) \<le> real (max f t)"
  proof (cases "f \<le> t")
    case True
    then have D0: "0 \<le> D" by (simp add: D_def)
    have "0 \<le> q * D" using assms(1) D0 by simp
    then have "toDouble 0 \<le> toDouble (q * D)" by (rule toDouble_mono)
    then have m0: "0 \<le> m" by (simp add: m_def)
    have "0 \<le> (1 - q) * D" using assms(2) D0 by (intro mult_nonneg_nonneg) simp_all
    then have "q * D \<le> D" by (simp add: algebra_simps)
    then have "toDouble (q * D) \<le> toDouble D" by (rule toDouble_mono)
    then have m1: "m \<le> D" by (simp add: m_def DD)
    have "real f \<le> real f + m" using m0 by simp
    then have lo: "toDouble (real f) \<le> toDouble (real f + m)" by (rule toDouble_mono)
    have "real f + m \<le> real t" using m1 by (simp add: D_def)
    then have hi: "toDouble (real f + m) \<le> toDouble (real t)" by (rule toDouble_mono)
    show ?thesis using True lo hi f t by simp
  next
    case False
    then have D0: "D \<le> 0" by (simp add: D_def)
    have "q * D \<le> 0" using assms(1) D0 by (simp add: mult_le_0_iff)
    then have "toDouble (q * D) \<le> toDouble 0" by (rule toDouble_mono)
    then have m0: "m \<le> 0" by (simp add: m_def)
    have "0 \<le> (1 - q) * (- D)" using assms(2) D0 by (intro mult_nonneg_nonneg) simp_all
    then have "D \<le> q * D" by (simp add: algebra_simps)
    then have "toDouble D \<le> toDouble (q * D)" by (rule toDouble_mono)
    then have m1: "D \<le> m" by (simp add: m_def DD)
    have "real t \<le> real f + m" using m1 by (simp add: D_def)
    then have lo: "toDouble (real t) \<le> toDouble (real f + m)" by (rule toDouble_mono)
    have "real f + m \<le> real f" using m0 by simp
    then have hi: "toDouble (real f + m) \<le> toDouble (real f)" by (rule toDouble_mono)
    show ?thesis using False lo hi f t by simp
  qed
  have c: "doubleChannel f t q = \<lfloor>toDouble (real f + m)\<rfloor>"
    by (simp only: doubleChannel_def D m_def)
  have lo: "of_int (int (min f t)) \<le> toDouble (real f + m)" using s by simp
  have hi: "toDouble (real f + m) \<le> of_int (int (max f t))" using s by simp
  show "int (min f t) \<le> doubleChannel f t q"
    unfolding c using lo by (simp only: le_floor_iff)
  have "\<lfloor>toDouble (real f + m)\<rfloor> \<le> \<lfloor>of_int (int (max f t)) :: real\<rfloor>"
    using hi by (rule floor_mono)
  then show "doubleChannel f t q \<le> int (max f t)"
    unfolding c by (simp only: floor_of_int)
qed

lemma toDouble_error: "\<bar>toDouble r - r\<bar> \<le> \<bar>r\<bar> / 2 ^ 53"
proof (cases "r = 0")
  case True
  then show ?thesis by simp
next
  case False
  define e where "e = exponentOf r"
  define u where "u = (2::real) powi (e - 52)"
  define R where "R = roundEven (r / u)"
  have u: "0 < u" by (simp add: u_def)
  have t: "toDouble r = of_int R * u"
    using False by (simp add: toDouble_def R_def u_def e_def)
  have "\<bar>of_int R - r / u\<bar> \<le> 1 / 2"
    using roundEven_bounds [of "r / u"] unfolding R_def by linarith
  then have "\<bar>of_int R - r / u\<bar> * u \<le> 1 / 2 * u"
    using u by (intro mult_right_mono) simp_all
  moreover have "\<bar>of_int R - r / u\<bar> * u = \<bar>toDouble r - r\<bar>"
  proof -
    have "\<bar>of_int R - r / u\<bar> * u = \<bar>(of_int R - r / u) * u\<bar>"
      using u by (simp add: abs_mult)
    also have "(of_int R - r / u) * u = of_int R * u - r"
      using u by (simp add: field_simps)
    finally show ?thesis by (simp only: t)
  qed
  ultimately have a: "\<bar>toDouble r - r\<bar> \<le> u / 2" by simp
  have "u / 2 = 2 powi e / 2 ^ 53"
    by (simp add: u_def power_int_diff)
  moreover have "2 powi e \<le> \<bar>r\<bar>"
    using exponentOf_bounds(1) [OF False] by (simp add: e_def)
  ultimately have "u / 2 \<le> \<bar>r\<bar> / 2 ^ 53"
    by (simp add: divide_right_mono)
  with a show ?thesis by linarith
qed


lemma toDouble_relative:
  assumes "0 \<le> r"
  shows "r * (1 - 1 / 2 ^ 53) \<le> toDouble r" and "toDouble r \<le> r * (1 + 1 / 2 ^ 53)"
proof -
  define E :: real where "E = 1 / 2 ^ 53"
  have e: "\<bar>toDouble r - r\<bar> \<le> r * E"
    using toDouble_error [of r] assms by (simp add: E_def)
  from e have "toDouble r - r \<le> r * E" "- (toDouble r - r) \<le> r * E"
    by (simp_all only: abs_le_iff)
  then have "r * (1 - E) \<le> toDouble r" "toDouble r \<le> r * (1 + E)"
    by (simp_all add: algebra_simps)
  then show "r * (1 - 1 / 2 ^ 53) \<le> toDouble r" "toDouble r \<le> r * (1 + 1 / 2 ^ 53)"
    by (simp_all only: E_def)
qed

lemma specFraction_in_bracket:
  assumes "a \<le> v" "v < b"
  shows "specFraction v a b = (v - a) / (b - a)"
proof -
  have "0 \<le> (v - a) / (b - a)" using assms by simp
  moreover have "(v - a) / (b - a) \<le> 1" using assms by simp
  ultimately show ?thesis by (simp add: specFraction_def)
qed

lemma fraction_error:
  assumes "a \<le> v" "v < b"
  shows "\<bar>doubleFraction v a b - specFraction v a b\<bar> \<le> 4 / 2 ^ 53"
proof -
  define E :: real where "E = 1 / 2 ^ 53"
  define x1 where "x1 = v - a"
  define x2 where "x2 = b - a"
  define n where "n = toDouble x1"
  define d where "d = toDouble x2"
  define q0 where "q0 = x1 / x2"
  define r where "r = n / d"
  define q where "q = toDouble r"
  have E: "0 < E" "E < 1" by (simp_all add: E_def)
  have xs: "0 \<le> x1" "0 < x2" "x1 \<le> x2" using assms by (simp_all add: x1_def x2_def)
  have q0: "0 \<le> q0" "q0 \<le> 1" using xs by (simp_all add: q0_def)
  have n: "x1 * (1 - E) \<le> n" "n \<le> x1 * (1 + E)"
    using toDouble_relative [OF xs(1)] by (simp_all add: n_def E_def)
  have n0: "0 \<le> n" using toDouble_mono [of 0 x1] xs(1) by (simp add: n_def)
  have d: "x2 * (1 - E) \<le> d" "d \<le> x2 * (1 + E)"
    using toDouble_relative [of x2] xs(2) by (simp_all add: d_def E_def)
  have d0: "0 < d" using toDouble_pos [OF xs(2)] by (simp add: d_def)
  have r0: "0 \<le> r" using n0 d0 by (simp add: r_def)
  have "n / d \<le> (x1 * (1 + E)) / (x2 * (1 - E))"
    using n(2) d(1) xs E n0 by (intro frac_le) simp_all
  then have r_hi: "r \<le> q0 * ((1 + E) / (1 - E))" by (simp add: r_def q0_def)
  have "(x1 * (1 - E)) / (x2 * (1 + E)) \<le> n / d"
    using n(1) d(2) d0 n0 by (intro frac_le) simp_all
  then have r_lo: "q0 * ((1 - E) / (1 + E)) \<le> r" by (simp add: r_def q0_def)
  have qq: "r * (1 - E) \<le> q" "q \<le> r * (1 + E)"
    using toDouble_relative [OF r0] by (simp_all add: q_def E_def)
  have "r * (1 + E) \<le> q0 * ((1 + E) / (1 - E)) * (1 + E)"
    using r_hi E by (intro mult_right_mono) simp_all
  also have "\<dots> = q0 * ((1 + E) / (1 - E) * (1 + E))" by simp
  also have "\<dots> \<le> q0 * (1 + 4 * E)"
    using q0(1) by (intro mult_left_mono) (simp_all add: E_def)
  also have "\<dots> \<le> q0 + 4 * E"
    using q0(2) E by (simp add: algebra_simps)
  finally have hi: "q \<le> q0 + 4 * E" using qq(2) by simp
  have "q0 - 4 * E \<le> q0 * (1 - 4 * E)"
    using q0(2) E by (simp add: algebra_simps)
  also have "\<dots> \<le> q0 * ((1 - E) / (1 + E) * (1 - E))"
    using q0(1) by (intro mult_left_mono) (simp_all add: E_def)
  also have "\<dots> = q0 * ((1 - E) / (1 + E)) * (1 - E)" by simp
  also have "\<dots> \<le> r * (1 - E)"
    using r_lo E by (intro mult_right_mono) simp_all
  finally have lo: "q0 - 4 * E \<le> q" using qq(1) by simp
  have "doubleFraction v a b = q"
    using doubleFraction_in_bracket(1) [OF assms] by (simp add: q_def r_def n_def d_def x1_def x2_def)
  moreover have "specFraction v a b = q0"
    using specFraction_in_bracket [OF assms] by (simp add: q0_def x1_def x2_def)
  moreover have "\<bar>q - q0\<bar> \<le> 4 * E" using lo hi by linarith
  ultimately show ?thesis by (simp add: E_def)
qed

lemma channel_error:
  assumes "a \<le> v" "v < b" "f \<le> 255" "t \<le> 255"
  shows "\<bar>doubleChannel f t (doubleFraction v a b) - specChannel f t (specFraction v a b)\<bar> \<le> 1"
proof -
  define E :: real where "E = 1 / 2 ^ 53"
  define q where "q = doubleFraction v a b"
  define q0 where "q0 = specFraction v a b"
  define D where "D = real t - real f"
  define p where "p = toDouble (q * D)"
  define s where "s = toDouble (real f + p)"
  have E: "0 < E" "E < 1" by (simp_all add: E_def)
  have D: "toDouble (real t - real f) = D"
    unfolding D_def by (rule toDouble_channel(2) [OF assms(3,4)])
  have Dabs: "\<bar>D\<bar> \<le> 255" using assms(3,4) by (simp add: D_def abs_le_iff)
  have q: "0 \<le> q" "q \<le> 1"
    using doubleFraction_in_bracket(2,3) [OF assms(1,2)] by (simp_all add: q_def)
  have qq: "\<bar>q - q0\<bar> \<le> 4 * E"
    using fraction_error [OF assms(1,2)] by (simp add: q_def q0_def E_def)
  have qD: "\<bar>q * D\<bar> \<le> 255"
  proof -
    have "\<bar>q * D\<bar> = q * \<bar>D\<bar>" using q(1) by (simp add: abs_mult)
    also have "\<dots> \<le> 1 * 255" using q Dabs by (intro mult_mono) simp_all
    finally show ?thesis by simp
  qed
  have e1: "\<bar>p - q * D\<bar> \<le> 255 * E"
  proof -
    have "\<bar>p - q * D\<bar> \<le> \<bar>q * D\<bar> / 2 ^ 53"
      unfolding p_def by (rule toDouble_error)
    also have "\<dots> \<le> 255 / 2 ^ 53" using qD by (simp add: divide_right_mono)
    finally show ?thesis by (simp add: E_def)
  qed
  have e2: "\<bar>q * D - q0 * D\<bar> \<le> 1020 * E"
  proof -
    have "\<bar>q * D - q0 * D\<bar> = \<bar>q - q0\<bar> * \<bar>D\<bar>"
      by (simp add: abs_mult [symmetric] left_diff_distrib)
    also have "\<dots> \<le> (4 * E) * 255" using qq Dabs by (intro mult_mono) simp_all
    finally show ?thesis by simp
  qed
  have f: "0 \<le> real f" "real f \<le> 255" using assms(3) by simp_all
  have "255 * E \<le> 255" using E by simp
  then have fp: "\<bar>real f + p\<bar> \<le> 765"
    using e1 qD f by linarith
  have e3: "\<bar>s - (real f + p)\<bar> \<le> 765 * E"
  proof -
    have "\<bar>s - (real f + p)\<bar> \<le> \<bar>real f + p\<bar> / 2 ^ 53"
      unfolding s_def by (rule toDouble_error)
    also have "\<dots> \<le> 765 / 2 ^ 53" using fp by (simp add: divide_right_mono)
    finally show ?thesis by (simp add: E_def)
  qed
  have "\<bar>s - (real f + q0 * D)\<bar> \<le> 2040 * E"
    using e1 e2 e3 by linarith
  then have close: "\<bar>s - (real f + q0 * D)\<bar> < 1"
    by (simp add: E_def)
  have c: "doubleChannel f t q = \<lfloor>s\<rfloor>"
    by (simp only: doubleChannel_def D s_def p_def)
  have c0: "specChannel f t q0 = \<lfloor>real f + q0 * D\<rfloor>"
    by (simp only: specChannel_def D_def)
  have "\<bar>\<lfloor>s\<rfloor> - \<lfloor>real f + q0 * D\<rfloor>\<bar> \<le> 1"
    using close by linarith
  then show ?thesis by (simp only: c c0 q_def [symmetric] q0_def [symmetric])
qed

lemma interpolatedColor_spec:
  assumes "position sf = Num a" "position st = Num b" "a \<le> v" "v < b"
    and "isHexColor (colorOf ct sf)" "isHexColor (colorOf ct st)"
  shows "interpolatedColor ft sf st ct (Num v)
         = doubleLinearColor a (colorOf ct sf) b (colorOf ct st) v"
  unfolding interpolatedColor_def doubleLinearColor_def Let_def
    hexColor_channels(1-3) [OF assms(5)] hexColor_channels(1-3) [OF assms(6)]
    assms(1,2)
    channel_lerp [OF assms(3,4) hexColor_channels(4) [OF assms(5)] hexColor_channels(4) [OF assms(6)]]
    channel_lerp [OF assms(3,4) hexColor_channels(5) [OF assms(5)] hexColor_channels(5) [OF assms(6)]]
    channel_lerp [OF assms(3,4) hexColor_channels(6) [OF assms(5)] hexColor_channels(6) [OF assms(6)]]
  by simp

lemma linearLoop_first:
  "i0 \<le> i \<Longrightarrow> bracketsAt ss v i \<Longrightarrow> (\<forall>j. i0 \<le> j \<and> j < i \<longrightarrow> \<not> bracketsAt ss v j) \<Longrightarrow>
   linearLoop ft ss ct v i0 = Inr (interpolatedColor ft (ss ! i) (ss ! (i + 1)) ct v)"
proof (induction ft ss ct v i0 rule: linearLoop.induct)
  case (1 ft ss ct v i0)
  have len: "i + 1 < length ss" using "1.prems"(2) by (simp add: bracketsAt_def)
  then have len0: "i0 + 1 < length ss" using "1.prems"(1) by simp
  show ?case
  proof (cases "i0 = i")
    case True
    then show ?thesis
      using "1.prems"(2) len by (subst linearLoop.simps) (simp add: bracketsAt_def)
  next
    case False
    then have lt: "i0 < i" using "1.prems"(1) by simp
    then have nb: "\<not> bracketsAt ss v i0" using "1.prems"(3) by simp
    then have nb': "\<not> (v \<ge> position (ss ! i0) \<and> v < position (ss ! (i0 + 1)))"
      using len0 by (simp add: bracketsAt_def)
    have "linearLoop ft ss ct v (i0 + 1) = Inr (interpolatedColor ft (ss ! i) (ss ! (i + 1)) ct v)"
      using "1.IH" [of "ss ! i0" "ss ! (i0 + 1)"] len0 nb' lt "1.prems"(2,3) by simp
    moreover have "linearLoop ft ss ct v i0 = linearLoop ft ss ct v (i0 + 1)"
      using len0 nb' by (subst linearLoop.simps) auto
    ultimately show ?thesis by simp
  qed
qed

lemma sorted_positions_le:
  assumes "sortedByPosition ss" "j \<le> k" "k < length ss"
    and "position (ss ! j) \<noteq> NaN \<or> position (ss ! k) \<noteq> NaN"
  shows "position (ss ! j) \<le> position (ss ! k)"
proof (cases "j = k")
  case True
  then show ?thesis using assms(4) by (cases "position (ss ! k)") simp_all
next
  case False
  then have "j < k" using assms(2) by simp
  then show ?thesis
    using assms(1,3) sorted_wrt_nth_less [of "\<lambda>a b. position a \<le> position b" ss j k]
    by (simp add: sortedByPosition_def)
qed

lemma number_le_trans: "(a::number) \<le> b \<Longrightarrow> b \<le> c \<Longrightarrow> a \<le> c"
  by (cases a; cases b; cases c) simp_all

lemma number_less_le_not_ge: "(a::number) < b \<Longrightarrow> b \<le> c \<Longrightarrow> \<not> c \<le> a"
  by (cases a; cases b; cases c) simp_all

lemma sorted_bracket_unique:
  assumes "sortedByPosition ss" "bracketsAt ss v i" "j < i"
  shows "\<not> bracketsAt ss v j"
proof -
  have i: "i + 1 < length ss" "position (ss ! i) \<le> v"
    using assms(2) by (simp_all add: bracketsAt_def)
  then have "position (ss ! i) \<noteq> NaN" by (cases "position (ss ! i)") simp_all
  then have "position (ss ! (j + 1)) \<le> position (ss ! i)"
    using sorted_positions_le [OF assms(1), of "j + 1" i] assms(3) i(1) by simp
  then have "\<not> v < position (ss ! (j + 1))"
    using i(2) number_le_le_not_less by blast
  then show ?thesis by (simp add: bracketsAt_def)
qed

lemma sorted_bracket_inside:
  assumes "sortedByPosition ss" "bracketsAt ss v i"
  shows "\<not> v < position (ss ! 0)" and "\<not> v \<ge> position (last ss)"
proof -
  have i: "i + 1 < length ss" "position (ss ! i) \<le> v" "v < position (ss ! (i + 1))"
    using assms(2) by (simp_all add: bracketsAt_def)
  then have ne: "ss \<noteq> []" by auto
  have "position (ss ! i) \<noteq> NaN" using i(2) by (cases "position (ss ! i)") simp_all
  then have "position (ss ! 0) \<le> position (ss ! i)"
    using sorted_positions_le [OF assms(1), of 0 i] i(1) by simp
  then show "\<not> v < position (ss ! 0)"
    using i(2) number_le_le_not_less by blast
  have "position (ss ! (i + 1)) \<noteq> NaN" using i(3) by (cases v; cases "position (ss ! (i + 1))") simp_all
  then have "position (ss ! (i + 1)) \<le> position (ss ! (length ss - 1))"
    using sorted_positions_le [OF assms(1), of "i + 1" "length ss - 1"] i(1) by simp
  then have "position (ss ! (i + 1)) \<le> position (last ss)"
    using ne by (simp add: last_conv_nth)
  then show "\<not> v \<ge> position (last ss)"
    using i(3) number_less_le_not_ge by blast
qed

lemma digitsOf_127: "digitsOf 127 = ''127''"
  by (simp add: digitsOf.simps)

lemma toDouble_quarters:
  "toDouble (1 / 2) = 1 / 2" "toDouble (255 / 2) = 255 / 2"
  "toDouble (3 / 4) = 3 / 4" "toDouble (765 / 4) = 765 / 4"
  using toDouble_representable [of 1 "- 1"] toDouble_representable [of 255 "- 1"]
    toDouble_representable [of 3 "- 2"] toDouble_representable [of 765 "- 2"]
  by (simp_all add: power_int_minus)

lemma toDouble_50_75:
  "toDouble 50 = 50" "toDouble 75 = 75" "toDouble 29 = 29"
  using toDouble_of_int [of 50] toDouble_of_int [of 75] toDouble_of_int [of 29] by simp_all

lemma halfway_lerp: "lerp (Num 50) (Num 0) (Num 100) (Num 0) (Num 255) = Num (255 / 2)"
  by (simp add: lerp_in_bracket toDouble_quarters toDouble_50_75)

lemma halfway_example:
  "gradientColorForValue ft \<lparr>type = ''linear'', stops = blackWhiteStops\<rparr> ct (Num 50)
     = Inr ''rgb(127, 127, 127)''"
  by (cases ct)
    (simp_all add: gradientColorForValue_def linearColorForValue_def blackWhiteStops_def
      linearLoop.simps interpolatedColor_def substr_def parseInt16_def isWhiteSpace_def
      isHexDigit_def hexDigitValue_def hexValue_def halfway_lerp intText_def digitsOf_127)

lemma ex1: "toDouble (29 / 100) = 5224175567749775 / 2 ^ 54"
proof -
  have "toDouble (29 / 100) = of_int (roundEven ((29 / 100) / 2 powi (- 2 - 52))) * 2 powi (- 2 - 52)"
    by (rule toDouble_eval) (simp_all add: power_int_minus)
  also have "(29 / 100) / 2 powi (- 2 - 52) = of_int 5224175567749775 + (9 / 25 :: real)"
    by (simp add: power_int_minus)
  also have "roundEven (of_int 5224175567749775 + (9 / 25 :: real)) = 5224175567749775"
    by (rule roundEven_near_int) simp
  finally show ?thesis by (simp add: power_int_minus)
qed

lemma ex2: "toDouble (5224175567749775 / 2 ^ 54 * 100) = 8162774324609023 / 2 ^ 48"
proof -
  let ?xa = "5224175567749775 / 2 ^ 54 * 100 :: real"
  have "toDouble ?xa = of_int (roundEven (?xa / 2 powi (4 - 52))) * 2 powi (4 - 52)"
    by (rule toDouble_eval) (simp_all add: power_int_minus)
  also have "?xa / 2 powi (4 - 52) = of_int 8162774324609023 + (7 / 16 :: real)"
    by (simp add: power_int_minus)
  also have "roundEven (of_int 8162774324609023 + (7 / 16 :: real)) = 8162774324609023"
    by (rule roundEven_near_int) simp
  finally show ?thesis by (simp add: power_int_minus)
qed

lemma ex3: "toDouble (8162774324609023 / 2 ^ 48) = 8162774324609023 / 2 ^ 48"
  using toDouble_representable [of 8162774324609023 "- 48"] by (simp add: power_int_minus)

lemma ex4: "\<lfloor>8162774324609023 / 2 ^ 48 :: real\<rfloor> = 28"
  by (simp add: floor_unique)

lemma tint_lerp:
  "lerp (Num 29) (Num 0) (Num 100) (Num 0) (Num 100) = Num (8162774324609023 / 2 ^ 48)"
proof -
  have "lerp (Num 29) (Num 0) (Num 100) (Num 0) (Num 100)
      = Num (toDouble (0 + toDouble (toDouble (toDouble (29 - 0) / toDouble (100 - 0))
                                       * toDouble (100 - 0))))"
    by (rule lerp_in_bracket) simp_all
  also have "\<dots> = Num (8162774324609023 / 2 ^ 48)"
    by (simp only: diff_zero add_0 toDouble_50_75 toDouble_numeral ex1 ex2 ex3)
  finally show ?thesis .
qed

lemma tint_floor: "Math_floor (Num (8162774324609023 / 2 ^ 48)) = Num 28"
  using ex4 by simp

lemma exampleStops_facts:
  "sortedByPosition exampleStops" "0 + 1 < length exampleStops"
  "position (exampleStops ! 0) = Num 0" "position (exampleStops ! (0 + 1)) = Num 100"
  "isHexColor (colorOf StrokeColor (exampleStops ! 0))"
  "isHexColor (colorOf StrokeColor (exampleStops ! (0 + 1)))"
  "colorOf StrokeColor (exampleStops ! 0) = ''#000000''"
  "colorOf StrokeColor (exampleStops ! (0 + 1)) = ''#ffffff''"
  by (simp_all add: exampleStops_def sortedByPosition_def isHexColor_def isHexDigit_def
      hexDigitValue_def)

lemma threeQuarters_fraction: "doubleFraction 75 0 100 = 3 / 4"
  by (simp add: doubleFraction_def toDouble_quarters toDouble_50_75)

lemma threeQuarters_channel: "doubleChannel 0 255 (3 / 4) = 191"
  by (simp add: doubleChannel_def toDouble_quarters)

lemma threeQuarters_color:
  "doubleLinearColor 0 ''#000000'' 100 ''#ffffff'' 75 = ''rgb(191, 191, 191)''"
  by (simp add: doubleLinearColor_def threeQuarters_fraction hexPair_def hexDigitValue_def
      threeQuarters_channel intText_def digitsOf.simps)

text \<open>
  Claim C2, amended. For a linear gradient sorted ascending, a pair of neighbours with
  \<open>stops[i].position <= value < stops[i+1].position\<close> and \<open>#RRGGBB\<close> colors at both, the
  two positions below \<open>2^1022\<close> in magnitude so that no operation overflows,
  \<open>gradientColorForValue\<close> returns the text \<open>rgb(r, g, b)\<close> in which each channel is the
  floor of the interpolation as doubles compute it: from the 8-bit integers of both ends,
  by the fraction of the value in the interval, which is the rounded quotient of the two
  rounded differences and lies in \<open>[0, 1]\<close>, so that the clamp changes nothing, as the
  rounded sum of the first channel and the rounded product. Each channel lies between
  the channels of the two ends and differs by at most one from the floor of the exact
  interpolation. For the gradient from \<open>#000000\<close> at 0 to \<open>#ffffff\<close> at 100
  the value 50 gives \<open>rgb(127, 127, 127)\<close>. The floor of the exact interpolation is not
  always what the code returns: between \<open>#000000\<close> at 0 and \<open>#646464\<close> at 100 the value 29
  gives \<open>rgb(28, 28, 28)\<close>, because the double nearest to \<open>29 / 100\<close> is below it.
\<close>

theorem linear_interpolation:
  assumes "sortedByPosition ss" and "i + 1 < length ss"
    and "position (ss ! i) = Num a" and "position (ss ! (i + 1)) = Num b"
    and "a \<le> v" and "v < b"
    and "isHexColor (colorOf ct (ss ! i))" and "isHexColor (colorOf ct (ss ! (i + 1)))"
    and "\<bar>a\<bar> < 2 ^ 1022" and "\<bar>b\<bar> < 2 ^ 1022"
  shows "gradientColorForValue ft \<lparr>type = ''linear'', stops = ss\<rparr> ct (Num v)
           = Inr (doubleLinearColor a (colorOf ct (ss ! i)) b (colorOf ct (ss ! (i + 1))) v)
         \<and> hexPair (colorOf ct (ss ! i)) 1 \<le> 255 \<and> hexPair (colorOf ct (ss ! i)) 3 \<le> 255
         \<and> hexPair (colorOf ct (ss ! i)) 5 \<le> 255
         \<and> hexPair (colorOf ct (ss ! (i + 1))) 1 \<le> 255
         \<and> hexPair (colorOf ct (ss ! (i + 1))) 3 \<le> 255
         \<and> hexPair (colorOf ct (ss ! (i + 1))) 5 \<le> 255
         \<and> doubleFraction v a b = toDouble (toDouble (v - a) / toDouble (b - a))
         \<and> 0 \<le> doubleFraction v a b \<and> doubleFraction v a b \<le> 1
         \<and> (\<forall>k\<in>{1, 3, 5}.
              int (min (hexPair (colorOf ct (ss ! i)) k) (hexPair (colorOf ct (ss ! (i + 1))) k))
                \<le> doubleChannel (hexPair (colorOf ct (ss ! i)) k)
                     (hexPair (colorOf ct (ss ! (i + 1))) k) (doubleFraction v a b)
              \<and> doubleChannel (hexPair (colorOf ct (ss ! i)) k)
                     (hexPair (colorOf ct (ss ! (i + 1))) k) (doubleFraction v a b)
                \<le> int (max (hexPair (colorOf ct (ss ! i)) k)
                          (hexPair (colorOf ct (ss ! (i + 1))) k))
              \<and> \<bar>doubleChannel (hexPair (colorOf ct (ss ! i)) k)
                     (hexPair (colorOf ct (ss ! (i + 1))) k) (doubleFraction v a b)
                   - specChannel (hexPair (colorOf ct (ss ! i)) k)
                     (hexPair (colorOf ct (ss ! (i + 1))) k) (specFraction v a b)\<bar> \<le> 1)
         \<and> gradientColorForValue ft \<lparr>type = ''linear'', stops = blackWhiteStops\<rparr> ct (Num 50)
           = Inr ''rgb(127, 127, 127)''"
proof -
  have br: "bracketsAt ss (Num v) i"
    using assms(2-6) by (simp add: bracketsAt_def)
  have ne: "ss \<noteq> []" using assms(2) by auto
  have "linearColorForValue ft ss ct (Num v) = linearLoop ft ss ct (Num v) 0"
    using linear_search [OF ne sorted_bracket_inside [OF assms(1) br]] .
  also have "\<dots> = Inr (interpolatedColor ft (ss ! i) (ss ! (i + 1)) ct (Num v))"
    using linearLoop_first [of 0 i ss "Num v" ft ct] br sorted_bracket_unique [OF assms(1) br]
    by blast
  also have "\<dots> = Inr (doubleLinearColor a (colorOf ct (ss ! i)) b (colorOf ct (ss ! (i + 1))) v)"
    using interpolatedColor_spec [OF assms(3-8)] by simp
  finally have code: "gradientColorForValue ft \<lparr>type = ''linear'', stops = ss\<rparr> ct (Num v)
           = Inr (doubleLinearColor a (colorOf ct (ss ! i)) b (colorOf ct (ss ! (i + 1))) v)"
    by (simp add: gradientColorForValue_def)
  note fr = doubleFraction_in_bracket [OF assms(5,6)]
  note cf = hexColor_channels(4-6) [OF assms(7)]
  note ct = hexColor_channels(4-6) [OF assms(8)]
  have range: "\<forall>k\<in>{1, 3, 5}.
              int (min (hexPair (colorOf ct (ss ! i)) k) (hexPair (colorOf ct (ss ! (i + 1))) k))
                \<le> doubleChannel (hexPair (colorOf ct (ss ! i)) k)
                     (hexPair (colorOf ct (ss ! (i + 1))) k) (doubleFraction v a b)
              \<and> doubleChannel (hexPair (colorOf ct (ss ! i)) k)
                     (hexPair (colorOf ct (ss ! (i + 1))) k) (doubleFraction v a b)
                \<le> int (max (hexPair (colorOf ct (ss ! i)) k)
                          (hexPair (colorOf ct (ss ! (i + 1))) k))
              \<and> \<bar>doubleChannel (hexPair (colorOf ct (ss ! i)) k)
                     (hexPair (colorOf ct (ss ! (i + 1))) k) (doubleFraction v a b)
                   - specChannel (hexPair (colorOf ct (ss ! i)) k)
                     (hexPair (colorOf ct (ss ! (i + 1))) k) (specFraction v a b)\<bar> \<le> 1"
    using doubleChannel_range [OF fr(2,3) cf(1) ct(1)] doubleChannel_range [OF fr(2,3) cf(2) ct(2)]
      doubleChannel_range [OF fr(2,3) cf(3) ct(3)]
      channel_error [OF assms(5,6) cf(1) ct(1)] channel_error [OF assms(5,6) cf(2) ct(2)]
      channel_error [OF assms(5,6) cf(3) ct(3)]
    by simp
  show ?thesis
    using code cf ct fr range halfway_example [of ft ct] by blast
qed

theorem linear_interpolation_witness:
  "gradientColorForValue noFractionText \<lparr>type = ''linear'', stops = exampleStops\<rparr> StrokeColor
     (Num 75)
     = Inr ''rgb(191, 191, 191)''"
proof -
  have v: "(0::real) \<le> 75" "(75::real) < 100" by simp_all
  have m: "\<bar>0::real\<bar> < 2 ^ 1022" "\<bar>100::real\<bar> < 2 ^ 1022" by simp_all
  show ?thesis
    using linear_interpolation [OF exampleStops_facts(1-4) v exampleStops_facts(5,6) m,
        of noFractionText]
    by (simp only: exampleStops_facts(7,8) threeQuarters_color)
qed

theorem linear_interpolation_counterexample:
  "gradientColorForValue noFractionText \<lparr>type = ''linear'', stops = tintStops\<rparr> StrokeColor
     (Num 29)
     = Inr ''rgb(28, 28, 28)'' \<and>
   specLinearColor 0 ''#000000'' 100 ''#646464'' 29 = ''rgb(29, 29, 29)''"
proof -
  have code: "gradientColorForValue noFractionText \<lparr>type = ''linear'', stops = tintStops\<rparr>
      StrokeColor (Num 29) = Inr ''rgb(28, 28, 28)''"
    by (simp add: gradientColorForValue_def linearColorForValue_def tintStops_def
        linearLoop.simps interpolatedColor_def substr_def parseInt16_def isWhiteSpace_def
        isHexDigit_def hexDigitValue_def hexValue_def tint_lerp tint_floor intText_def
        digitsOf.simps)
  have spec: "specLinearColor 0 ''#000000'' 100 ''#646464'' 29 = ''rgb(29, 29, 29)''"
    by (simp add: specLinearColor_def specFraction_def specChannel_def hexPair_def
        hexDigitValue_def intText_def digitsOf.simps)
  show ?thesis using code spec by simp
qed

section \<open>Division by zero\<close>

lemma lerp_zero_divisor:
  assumes "double (sourceMax - sourceMin) = Num 0"
  shows "(let value1 = (if v < sourceMin then sourceMin else v);
              value2 = (if value1 > sourceMax then sourceMax else value1)
          in double (value2 - sourceMin) = Num 0 \<or> double (value2 - sourceMin) = NaN)"
  using assms by (cases v; cases sourceMin; cases sourceMax) (auto simp: Let_def)

lemma unitVector_zero_divisor:
  assumes "Math_sqrt (x v * x v + y v * y v) = Num 0"
  shows "x v = Num 0 \<and> y v = Num 0"
  using assms by (cases "x v"; cases "y v") (auto split: if_splits)

section \<open>Halving a curve\<close>

lemma midpoint_point [simp]: "midpoint (point a b) (point c d) = point ((a + c) / 2) ((b + d) / 2)"
  by (simp add: midpoint_def point_def)

lemma bezierPoint_point:
  "bezierPoint (point a1 b1) (point a2 b2) (point a3 b3) (point a4 b4) t
     = point (bezierAt a1 a2 a3 a4 t) (bezierAt b1 b2 b3 b4 t)"
  by (simp add: bezierPoint_def point_def bezierAt_def)

lemma bezierAt_first_half:
  "bezierAt a ((a + b) / 2) (((a + b) / 2 + (b + c) / 2) / 2)
     ((((a + b) / 2 + (b + c) / 2) / 2 + ((b + c) / 2 + (c + d) / 2) / 2) / 2) t
   = bezierAt a b c d (t / 2)"
  by (simp add: bezierAt_def power3_eq_cube power2_eq_square field_simps)

lemma bezierAt_second_half:
  "bezierAt ((((a + b) / 2 + (b + c) / 2) / 2 + ((b + c) / 2 + (c + d) / 2) / 2) / 2)
     (((b + c) / 2 + (c + d) / 2) / 2) ((c + d) / 2) d t
   = bezierAt a b c d ((1 + t) / 2)"
  by (simp add: bezierAt_def power3_eq_cube power2_eq_square field_simps)

lemma bezierAt_half:
  "bezierAt a b c d (1 / 2)
   = (((a + b) / 2 + (b + c) / 2) / 2 + ((b + c) / 2 + (c + d) / 2) / 2) / 2"
  by (simp add: bezierAt_def power3_eq_cube power2_eq_square field_simps)

text \<open>
  Claim C3. With both control points present, \<open>halveCubicBezier\<close> returns
  \<open>[p1, m1, q1, o, q2, m3, p2]\<close>, where \<open>m1\<close>, \<open>m2\<close>, \<open>m3\<close> are the midpoints of
  \<open>(p1, c1)\<close>, \<open>(c1, c2)\<close>, \<open>(c2, p2)\<close>, \<open>q1\<close> and \<open>q2\<close> those of \<open>(m1, m2)\<close> and \<open>(m2, m3)\<close>,
  and \<open>o\<close> that of \<open>(q1, q2)\<close>. A single \<open>null\<close> control point is replaced by its endpoint
  first. For finite coordinates \<open>o\<close> is the point of the curve at \<open>t = 1/2\<close>, the first four
  points are the curve on \<open>[0, 1/2]\<close> and the last four the curve on \<open>[1/2, 1]\<close>.
\<close>

theorem halve_de_casteljau:
  "halveCubicBezier p1 (Some c1) (Some c2) p2 =
     [p1, midpoint p1 c1, midpoint (midpoint p1 c1) (midpoint c1 c2),
      midpoint (midpoint (midpoint p1 c1) (midpoint c1 c2))
        (midpoint (midpoint c1 c2) (midpoint c2 p2)),
      midpoint (midpoint c1 c2) (midpoint c2 p2), midpoint c2 p2, p2] \<and>
   halveCubicBezier p1 None (Some c2) p2 = halveCubicBezier p1 (Some p1) (Some c2) p2 \<and>
   halveCubicBezier p1 (Some c1) None p2 = halveCubicBezier p1 (Some c1) (Some p2) p2 \<and>
   halveCubicBezier (point a1 b1) (Some (point a2 b2)) (Some (point a3 b3)) (point a4 b4) ! 3
     = bezierPoint (point a1 b1) (point a2 b2) (point a3 b3) (point a4 b4) (1 / 2) \<and>
   (let h = halveCubicBezier (point a1 b1) (Some (point a2 b2)) (Some (point a3 b3)) (point a4 b4)
    in bezierPoint (h ! 0) (h ! 1) (h ! 2) (h ! 3) t
         = bezierPoint (point a1 b1) (point a2 b2) (point a3 b3) (point a4 b4) (t / 2) \<and>
       bezierPoint (h ! 3) (h ! 4) (h ! 5) (h ! 6) t
         = bezierPoint (point a1 b1) (point a2 b2) (point a3 b3) (point a4 b4) ((1 + t) / 2))"
proof (intro conjI)
  show "halveCubicBezier p1 (Some c1) (Some c2) p2 =
     [p1, midpoint p1 c1, midpoint (midpoint p1 c1) (midpoint c1 c2),
      midpoint (midpoint (midpoint p1 c1) (midpoint c1 c2))
        (midpoint (midpoint c1 c2) (midpoint c2 p2)),
      midpoint (midpoint c1 c2) (midpoint c2 p2), midpoint c2 p2, p2]"
    by (simp add: halveCubicBezier_def Let_def)
  show "halveCubicBezier p1 None (Some c2) p2 = halveCubicBezier p1 (Some p1) (Some c2) p2"
    by (simp add: halveCubicBezier_def Let_def)
  show "halveCubicBezier p1 (Some c1) None p2 = halveCubicBezier p1 (Some c1) (Some p2) p2"
    by (simp add: halveCubicBezier_def Let_def)
  show "halveCubicBezier (point a1 b1) (Some (point a2 b2)) (Some (point a3 b3)) (point a4 b4) ! 3
     = bezierPoint (point a1 b1) (point a2 b2) (point a3 b3) (point a4 b4) (1 / 2)"
    by (simp add: halveCubicBezier_def Let_def bezierPoint_point bezierAt_half)
  show "let h = halveCubicBezier (point a1 b1) (Some (point a2 b2)) (Some (point a3 b3)) (point a4 b4)
    in bezierPoint (h ! 0) (h ! 1) (h ! 2) (h ! 3) t
         = bezierPoint (point a1 b1) (point a2 b2) (point a3 b3) (point a4 b4) (t / 2) \<and>
       bezierPoint (h ! 3) (h ! 4) (h ! 5) (h ! 6) t
         = bezierPoint (point a1 b1) (point a2 b2) (point a3 b3) (point a4 b4) ((1 + t) / 2)"
    by (simp add: halveCubicBezier_def Let_def bezierPoint_point bezierAt_first_half
        bezierAt_second_half)
qed

text \<open>
  Claim C7. With both control points \<open>null\<close>, element 3 of the result of
  \<open>halveCubicBezier\<close> is the midpoint of \<open>p1\<close> and \<open>p2\<close>, every other interior element is
  \<open>p1\<close>, \<open>p2\<close> or that midpoint, and the line from \<open>(0, 0)\<close> to \<open>(10, 0)\<close> has the midpoint
  \<open>(5, 0)\<close>.
\<close>

theorem halve_straight_line:
  "halveCubicBezier p1 None None p2 ! 3 = midpoint p1 p2 \<and>
   halveCubicBezier p1 None None p2 ! 1 \<in> {p1, p2, midpoint p1 p2} \<and>
   halveCubicBezier p1 None None p2 ! 2 \<in> {p1, p2, midpoint p1 p2} \<and>
   halveCubicBezier p1 None None p2 ! 4 \<in> {p1, p2, midpoint p1 p2} \<and>
   halveCubicBezier p1 None None p2 ! 5 \<in> {p1, p2, midpoint p1 p2} \<and>
   halveCubicBezier p1 None None p2 ! 0 = p1 \<and>
   halveCubicBezier p1 None None p2 ! 6 = p2 \<and>
   length (halveCubicBezier p1 None None p2) = 7 \<and>
   midpoint (point a b) (point c d) = point ((a + c) / 2) ((b + d) / 2) \<and>
   halveCubicBezier (point 0 0) None None (point 10 0) ! 3 = point 5 0"
  by (simp add: halveCubicBezier_def Let_def)

section \<open>Bend control points\<close>

lemma normalizeUp_above: "\<not> a \<le> - Math_PI \<Longrightarrow> normalizeUp a = Some a"
  by (subst normalizeUp.simps) simp

lemma normalizeDown_below: "\<not> a > Math_PI \<Longrightarrow> normalizeDown a = Some a"
  by (subst normalizeDown.simps) simp

lemma normalizeAngle_inside:
  assumes "- toDouble pi < r" "r \<le> toDouble pi"
  shows "normalizeAngle (Num r) = Some (Num r)"
  using assms
  by (simp add: normalizeAngle_def normalizeUp_above normalizeDown_below Math_PI_def)

text \<open>
  A round of the second loop that leaves the angle as it is repeats for ever: the loop
  has no result.
\<close>

lemma normalizeDown_stuck:
  assumes "a > Math_PI" and "double (a - double (Num 2 * Math_PI)) = a"
  shows "normalizeDown a = None"
proof (rule ccontr)
  assume "normalizeDown a \<noteq> None"
  then obtain r where r: "normalizeDown a = Some r" by auto
  have "z \<noteq> a" if "normalizeDown z = Some r'" for z r'
    using that
  proof (induction rule: normalizeDown.raw_induct [rotated 1, consumes 1, case_names step])
    case (step loop z r')
    show ?case
    proof
      assume "z = a"
      then have "loop a = Some r'" using step(2) assms by simp
      then show False using step(1) by blast
    qed
  qed
  then show False using r by blast
qed

lemma normalizeUp_stuck:
  assumes "a \<le> - Math_PI" and "double (a + double (Num 2 * Math_PI)) = a"
  shows "normalizeUp a = None"
proof (rule ccontr)
  assume "normalizeUp a \<noteq> None"
  then obtain r where r: "normalizeUp a = Some r" by auto
  have "z \<noteq> a" if "normalizeUp z = Some r'" for z r'
    using that
  proof (induction rule: normalizeUp.raw_induct [rotated 1, consumes 1, case_names step])
    case (step loop z r')
    show ?case
    proof
      assume "z = a"
      then have "loop a = Some r'" using step(2) assms by simp
      then show False using step(1) by blast
    qed
  qed
  then show False using r by blast
qed

text \<open>What \<open>normalizeAngle\<close> returns, when it returns, passes the tests of both loops.\<close>

lemma normalizeDown_result:
  "normalizeDown a = Some r \<Longrightarrow> \<not> r > Math_PI"
proof (induction rule: normalizeDown.raw_induct [rotated 1, consumes 1, case_names step])
  case (step loop z r')
  then show ?case by (auto split: if_splits)
qed

lemma hugeAngle_facts:
  "2 powi 57 + 8 \<le> hugeAngle" "hugeAngle < 2 powi 58"
  "\<exists>K. hugeAngle = of_int K * 2 powi 5"
proof -
  let ?t1 = "toDouble (10 ^ 19 * toDouble pi)"
  let ?t2 = "toDouble (?t1 / 180)"
  have t1: "of_int 57220458984375 * 2 powi 19 \<le> ?t1" "?t1 \<le> of_int 76293945312500 * 2 powi 19"
    using toDouble_between [of 57220458984375 19 "10 ^ 19 * toDouble pi" 76293945312500]
      toDouble_pi_bounds by simp_all
  have t2: "of_int 2288818359375 * 2 powi 16 \<le> ?t2" "?t2 \<le> of_int 3814697265625 * 2 powi 16"
    using toDouble_between [of 2288818359375 16 "?t1 / 180" 3814697265625] t1 by simp_all
  have a: "of_int 2288818359375 * 2 powi 16 \<le> hugeAngle"
    "hugeAngle \<le> of_int 3814697265625 * 2 powi 16"
    unfolding hugeAngle_def
    using toDouble_between [of 2288818359375 16 ?t2 3814697265625] t2 by simp_all
  show "2 powi 57 + 8 \<le> hugeAngle" using a(1) by simp
  show "hugeAngle < 2 powi 58" using a(2) by simp
  have "2 powi 57 \<le> \<bar>?t2\<bar>" "\<bar>?t2\<bar> < 2 powi (57 + 1)" using t2 by simp_all
  then have "toDouble ?t2 = of_int (roundEven (?t2 / 2 powi (57 - 52))) * 2 powi (57 - 52)"
    by (rule toDouble_eval)
  then show "\<exists>K. hugeAngle = of_int K * 2 powi 5" unfolding hugeAngle_def by auto
qed

lemma hugeAngle_stuck: "toDouble (hugeAngle - toDouble (2 * toDouble pi)) = hugeAngle"
proof -
  let ?c = "toDouble (2 * toDouble pi)"
  obtain K where K: "hugeAngle = of_int K * 2 powi 5" using hugeAngle_facts(3) by blast
  have b: "2 powi 57 \<le> \<bar>hugeAngle - ?c\<bar>" "\<bar>hugeAngle - ?c\<bar> < 2 powi (57 + 1)"
    using hugeAngle_facts(1,2) toDouble_two_pi_bounds by simp_all
  have "toDouble (hugeAngle - ?c)
      = of_int (roundEven ((hugeAngle - ?c) / 2 powi (57 - 52))) * 2 powi (57 - 52)"
    using b by (rule toDouble_eval)
  also have "(hugeAngle - ?c) / 2 powi (57 - 52) = of_int K + (- ?c / 32)"
    by (simp add: K field_simps)
  also have "roundEven (of_int K + (- ?c / 32)) = K"
    by (rule roundEven_near_int) (use toDouble_two_pi_bounds in simp)
  finally show ?thesis by (simp add: K)
qed

lemma hugeAngle_first:
  "double (Math_atan2 (Num 10 - Num 10) (Num 125 - Num 25) + deg2rad (Num (10 ^ 19)))
   = Num hugeAngle"
  by (simp add: deg2rad_def Math_PI_def atan2_def hugeAngle_def)

lemma hugeAngle_above: "Math_PI < Num hugeAngle"
  using hugeAngle_facts(1) toDouble_pi_bounds(2) by (simp add: Math_PI_def)

lemma hugeAngle_round:
  "double (Num hugeAngle - double (Num 2 * Math_PI)) = Num hugeAngle"
  using hugeAngle_stuck by (simp add: Math_PI_def)

lemma hugeAngle_normalize: "normalizeAngle (Num hugeAngle) = None"
proof -
  have "\<not> Num hugeAngle \<le> - Math_PI"
    using hugeAngle_facts(1) toDouble_pi_bounds(1) by (simp add: Math_PI_def)
  then have "normalizeUp (Num hugeAngle) = Some (Num hugeAngle)"
    by (rule normalizeUp_above)
  then show ?thesis
    using normalizeDown_stuck [OF hugeAngle_above hugeAngle_round]
    by (simp add: normalizeAngle_def)
qed

lemma rightAngle_bounds:
  "3 / 2 \<le> toDouble (toDouble (toDouble (90 * toDouble pi) / 180))"
  "toDouble (toDouble (toDouble (90 * toDouble pi) / 180)) \<le> 2"
  "1 \<le> toDouble (toDouble pi - toDouble (toDouble (90 * toDouble pi) / 180))"
  "toDouble (toDouble pi - toDouble (toDouble (90 * toDouble pi) / 180)) \<le> 5 / 2"
proof -
  let ?t1 = "toDouble (90 * toDouble pi)"
  let ?t2 = "toDouble (?t1 / 180)"
  have t1: "270 \<le> ?t1" "?t1 \<le> 360"
    using toDouble_between [of 270 0 "90 * toDouble pi" 360] toDouble_pi_bounds by simp_all
  have t2: "3 / 2 \<le> ?t2" "?t2 \<le> 2"
    using toDouble_between [of 3 "- 1" "?t1 / 180" 4] t1 by (simp_all add: power_int_minus)
  show "3 / 2 \<le> toDouble ?t2" "toDouble ?t2 \<le> 2"
    using toDouble_between [of 3 "- 1" ?t2 4] t2 by (simp_all add: power_int_minus)
  show "1 \<le> toDouble (toDouble pi - ?t2)" "toDouble (toDouble pi - ?t2) \<le> 5 / 2"
    using toDouble_between [of 2 "- 1" "toDouble pi - ?t2" 5] t2 toDouble_pi_bounds
    by (simp_all add: power_int_minus)
qed

lemma rightAngle_controls:
  "\<exists>c1 c2. bendControls (point 25 10) (point 125 10) bentEdge = Some (Some c1, Some c2)"
proof -
  let ?t2 = "toDouble (toDouble (90 * toDouble pi) / 180)"
  have n1: "normalizeAngle (Num (toDouble ?t2)) = Some (Num (toDouble ?t2))"
    using rightAngle_bounds(1,2) toDouble_pi_bounds by (intro normalizeAngle_inside) simp_all
  have n2: "normalizeAngle (Num (toDouble (toDouble pi - ?t2)))
      = Some (Num (toDouble (toDouble pi - ?t2)))"
    using rightAngle_bounds(3,4) toDouble_pi_bounds by (intro normalizeAngle_inside) simp_all
  show ?thesis
    by (simp add: bendControls_def bentEdge_def point_def Let_def deg2rad_def Math_PI_def
        atan2_def n1 n2)
qed

text \<open>
  Claim C6. For an edge whose \<open>bendDirection\<close> and \<open>bendMagnitude\<close> are both truthy, the
  control points are to be the centers moved by the bend magnitude along the angle
  between the centers, rotated by the bend direction and normalized into \<open>(-pi, pi]\<close> by
  repeated addition or subtraction of \<open>2 * pi\<close>. The normalization does not always
  return. For the bend direction \<open>1e19\<close> degrees between the centers \<open>(25, 10)\<close> and
  \<open>(125, 10)\<close> the rotated angle lies between \<open>2^57\<close> and \<open>2^58\<close>, where neighbouring
  doubles are 32 apart: it is greater than \<open>Math.PI\<close>, the subtraction of \<open>2 * Math.PI\<close>
  gives the same double again, and \<open>while (angleRadians > Math.PI)\<close> never ends. No
  control point is computed and the body of the loop of \<open>placeEdges\<close> never returns. For
  the bend direction 90 both normalizations return and there are two control points;
  for the bend magnitude 0 there is none.
\<close>

theorem bend_normalization_never_returns:
  "truthy (bendDirection hugeBendEdge) \<and> truthy (bendMagnitude hugeBendEdge)
   \<and> double (Math_atan2 (Num 10 - Num 10) (Num 125 - Num 25)
              + deg2rad (the (bendDirection hugeBendEdge))) = Num hugeAngle
   \<and> 2 ^ 57 < hugeAngle \<and> hugeAngle < 2 ^ 58
   \<and> Math_PI < Num hugeAngle
   \<and> double (Num hugeAngle - double (Num 2 * Math_PI)) = Num hugeAngle
   \<and> normalizeAngle (Num hugeAngle) = None
   \<and> bendControls (point 25 10) (point 125 10) hugeBendEdge = None
   \<and> nodeCenter nodeA = point 25 10 \<and> nodeCenter nodeB = point 125 10
   \<and> placeEdge nodeA nodeB hugeBendEdge = None
   \<and> (\<exists>c1 c2. bendControls (point 25 10) (point 125 10) bentEdge = Some (Some c1, Some c2))
   \<and> bendControls (point 25 10) (point 125 10) (bentEdge\<lparr>bendMagnitude := Some (Num 0)\<rparr>)
       = Some (None, None)"
proof -
  have t: "truthy (bendDirection hugeBendEdge)" "truthy (bendMagnitude hugeBendEdge)"
    by (simp_all add: hugeBendEdge_def)
  have d: "the (bendDirection hugeBendEdge) = Num (10 ^ 19)"
    by (simp add: hugeBendEdge_def)
  have first: "double (Math_atan2 (y (point 25 10) - y (point 125 10))
                  (x (point 125 10) - x (point 25 10))
                + deg2rad (the (bendDirection hugeBendEdge))) = Num hugeAngle"
    using hugeAngle_first by (simp add: point_def d)
  have bc: "bendControls (point 25 10) (point 125 10) hugeBendEdge = None"
    unfolding bendControls_def Let_def first hugeAngle_normalize using t by simp
  have c: "nodeCenter nodeA = point 25 10" "nodeCenter nodeB = point 125 10"
    by (simp_all add: nodeCenter_def nodeA_def nodeB_def point_def)
  have pe: "placeEdge nodeA nodeB hugeBendEdge = None"
    unfolding placeEdge_def Let_def c bc by simp
  have r: "2 ^ 57 < hugeAngle" "hugeAngle < 2 ^ 58"
    using hugeAngle_facts(1,2) by simp_all
  have straight: "bendControls (point 25 10) (point 125 10)
      (bentEdge\<lparr>bendMagnitude := Some (Num 0)\<rparr>) = Some (None, None)"
    by (simp add: bendControls_def bentEdge_def)
  show ?thesis
    using t hugeAngle_first d r hugeAngle_above hugeAngle_round hugeAngle_normalize bc c pe
      rightAngle_controls straight
    by simp
qed

section \<open>Strokes of an edge\<close>

lemma strokeLoop_stroke:
  "strokeLoop u s c1 c2 e c True (w # rest)
     = strokeAt u (c + w / Num 2) w s c1 c2 e # strokeLoop u s c1 c2 e (c + w) False rest"
  by (cases c1; cases c2) (simp_all add: strokeLoop.simps(2) strokeAt_def Let_def)

lemma strokeLoop_gap:
  "strokeLoop u s c1 c2 e c False (g # rest) = strokeLoop u s c1 c2 e (c + g) True rest"
  by (simp add: strokeLoop.simps(2))

lemma strokeLoop_widths:
  "map strokeWidth (strokeLoop u s c1 c2 e c True ws) = evenEntries ws"
proof (induction ws arbitrary: c rule: evenEntries.induct)
  case 1
  show ?case by simp
next
  case (2 a)
  show ?case by (simp add: strokeLoop_stroke strokeAt_def)
next
  case (3 a b rest)
  show ?case
    using "3.IH" [of "c + a + b"]
    by (simp add: strokeLoop_stroke strokeLoop_gap strokeAt_def)
qed

lemma length_evenEntries: "length (evenEntries ws) = (length ws + 1) div 2"
  by (induction ws rule: evenEntries.induct) simp_all

lemma totalStrokeWidthOf_real: "totalStrokeWidthOf (map Num rs) = Num (sum_list rs)"
proof -
  have "foldl (\<lambda>acc cur. acc + cur) (Num a) (map Num rs) = Num (a + sum_list rs)" for a
    by (induction rs arbitrary: a) (simp_all add: add.assoc)
  from this [of 0] show ?thesis by (simp add: totalStrokeWidthOf_def)
qed

lemma upt_shift: "map f [0..<Suc n] = f 0 # map (\<lambda>k. f (Suc k)) [0..<n]"
  by (simp add: upt_conv_Cons map_Suc_upt [symmetric] del: upt_Suc)

lemma strokeLoop_closed:
  "strokeLoop u s c1 c2 e (Num c) True (map Num rs)
     = map (\<lambda>k. strokeAt u (Num (c + sum_list (take (2 * k) rs) + rs ! (2 * k) / 2))
                   (Num (rs ! (2 * k))) s c1 c2 e)
         [0..<(length rs + 1) div 2]"
proof (induction rs arbitrary: c rule: evenEntries.induct)
  case 1
  show ?case by simp
next
  case (2 a)
  show ?case by (simp add: strokeLoop_stroke)
next
  case (3 a b rest)
  have n: "(length (a # b # rest) + 1) div 2 = Suc ((length rest + 1) div 2)" by simp
  show ?case
    unfolding n upt_shift
    using "3.IH" [of "c + a + b"]
    by (simp add: strokeLoop_stroke strokeLoop_gap add.assoc)
qed

lemma placeStrokes_loop:
  "placeStrokes ws s c1 c2 e
     = strokeLoop (offsetUnitVectorOf ws s e) s c1 c2 e (- totalStrokeWidthOf ws / Num 2) True ws"
  by (simp add: placeStrokes_def Let_def)

lemma placeStrokes_closed:
  "placeStrokes (map Num rs) s c1 c2 e
     = map (\<lambda>k. strokeAt (offsetUnitVectorOf (map Num rs) s e) (Num (centerlineOffset rs k))
                   (Num (rs ! (2 * k))) s c1 c2 e)
         [0..<(length rs + 1) div 2]"
proof -
  have "- totalStrokeWidthOf (map Num rs) / Num 2 = Num (- sum_list rs / 2)"
    by (simp add: totalStrokeWidthOf_real)
  then show ?thesis
    unfolding placeStrokes_loop centerlineOffset_def
    using strokeLoop_closed [of "offsetUnitVectorOf (map Num rs) s e" s c1 c2 e
        "- sum_list rs / 2" rs]
    by simp
qed

lemma centered_extent:
  assumes "odd (length rs)"
  shows "centerlineOffset rs 0 - rs ! 0 / 2 = - sum_list rs / 2"
    and "centerlineOffset rs (length rs div 2) + rs ! (length rs - 1) / 2 = sum_list rs / 2"
proof -
  show "centerlineOffset rs 0 - rs ! 0 / 2 = - sum_list rs / 2"
    by (simp add: centerlineOffset_def)
  from assms obtain n where n: "length rs = 2 * n + 1" by (auto elim: oddE)
  then have idx: "2 * (length rs div 2) = length rs - 1" by simp
  have lt: "length rs - 1 < length rs" using n by simp
  have "take (Suc (length rs - 1)) rs = take (length rs - 1) rs @ [rs ! (length rs - 1)]"
    using lt by (rule take_Suc_conv_app_nth)
  moreover have "Suc (length rs - 1) = length rs" using n by simp
  ultimately have "rs = take (length rs - 1) rs @ [rs ! (length rs - 1)]"
    by simp
  then have "sum_list rs = sum_list (take (length rs - 1) rs @ [rs ! (length rs - 1)])"
    by simp
  then have "sum_list rs = sum_list (take (length rs - 1) rs) + rs ! (length rs - 1)"
    by simp
  moreover have "centerlineOffset rs (length rs div 2)
      = - sum_list rs / 2 + sum_list (take (length rs - 1) rs) + rs ! (length rs - 1) / 2"
    by (simp only: centerlineOffset_def idx)
  ultimately show "centerlineOffset rs (length rs div 2) + rs ! (length rs - 1) / 2
      = sum_list rs / 2"
    by linarith
qed

lemma single_stroke:
  "placeStrokes [Num r] s c1 c2 e
     = [\<lparr>strokeWidth = Num r, strokeStart = s, strokeControl1 = c1, strokeControl2 = c2,
         strokeEnd = e\<rparr>]"
proof -
  have z: "p = \<lparr>x = x p + Num 0, y = y p + Num 0\<rparr>" for p :: Point2D
    by (cases p, cases "x p"; cases "y p") simp_all
  have [simp]: "\<lparr>x = x p + Num 0, y = y p + Num 0\<rparr> = p" for p :: Point2D
    using z [of p] by simp
  show ?thesis
    by (cases c1; cases c2)
      (simp_all add: placeStrokes_def offsetUnitVectorOf_def totalStrokeWidthOf_def
        strokeLoop.simps(2) Let_def)
qed

text \<open>
  Claim C4, amended. The total width is the sum of all entries of the pattern, strokes and
  gaps; the running offset starts at minus half of it; a stroke entry \<open>w\<close> is emitted at
  the running offset plus \<open>w / 2\<close> and advances the offset by \<open>w\<close>, a gap entry advances it
  by its width. For a pattern of numbers the \<open>k\<close>-th stroke lies at \<open>centerlineOffset\<close>, and
  for an odd length the strokes span from minus half the total to plus half the total. A
  single-element pattern whose width is a number gives the unmodified segment, which is
  what an edge without a style gets.
\<close>

theorem stroke_offsets:
  "totalStrokeWidthOf (map Num rs) = Num (sum_list rs) \<and>
   placeStrokes ws s c1 c2 e
     = strokeLoop (offsetUnitVectorOf ws s e) s c1 c2 e (- totalStrokeWidthOf ws / Num 2)
         True ws \<and>
   strokeLoop u s c1 c2 e c True (w # rest)
     = strokeAt u (c + w / Num 2) w s c1 c2 e # strokeLoop u s c1 c2 e (c + w) False rest \<and>
   strokeLoop u s c1 c2 e c False (g # rest) = strokeLoop u s c1 c2 e (c + g) True rest \<and>
   placeStrokes (map Num rs) s c1 c2 e
     = map (\<lambda>k. strokeAt (offsetUnitVectorOf (map Num rs) s e) (Num (centerlineOffset rs k))
                   (Num (rs ! (2 * k))) s c1 c2 e)
         [0..<(length rs + 1) div 2] \<and>
   (odd (length rs) \<longrightarrow>
      centerlineOffset rs 0 - rs ! 0 / 2 = - sum_list rs / 2 \<and>
      centerlineOffset rs (length rs div 2) + rs ! (length rs - 1) / 2 = sum_list rs / 2) \<and>
   placeStrokes [Num r] s c1 c2 e
     = [\<lparr>strokeWidth = Num r, strokeStart = s, strokeControl1 = c1, strokeControl2 = c2,
         strokeEnd = e\<rparr>] \<and>
   makeAndPlaceEdge parseFloat (Num r) styleMap s c1 c2 e None
     = [\<lparr>strokeWidth = Num r, strokeStart = s, strokeControl1 = c1, strokeControl2 = c2,
         strokeEnd = e\<rparr>]"
proof -
  have "makeAndPlaceEdge parseFloat (Num r) styleMap s c1 c2 e None = placeStrokes [Num r] s c1 c2 e"
    by (simp add: makeAndPlaceEdge_def getWeathermapStyle_def parsedStrokeWidths_def
        doubledStrokeWidths_def)
  then show ?thesis
    using totalStrokeWidthOf_real [of rs] placeStrokes_loop [of ws s c1 c2 e]
      strokeLoop_stroke [of u s c1 c2 e c w rest] strokeLoop_gap [of u s c1 c2 e c g rest]
      placeStrokes_closed [of rs s c1 c2 e] centered_extent [of rs] single_stroke [of r s c1 c2 e]
    by simp
qed

lemma sqrt_100: "sqrt 100 = 10"
  by (rule real_sqrt_unique) simp_all

lemma horizontal_axis: "offsetUnitVectorOf [a, b, c] (point 0 0) (point 10 0) = point 0 1"
  by (simp add: offsetUnitVectorOf_def unitVector_def point_def sqrt_100)

text \<open>
  The claim C4 as stated fails. For the pattern \<open>2 1 2\<close> the total that the code computes
  is 5, with the gap, and not the sum 4 of the stroke entries: the two strokes of the
  segment from \<open>(0, 0)\<close> to \<open>(10, 0)\<close> start at \<open>y = -3/2\<close> and \<open>y = 3/2\<close>. And for the
  single-element pattern with the width \<open>NaN\<close> the stroke is not the original segment.
\<close>

theorem stroke_total_counterexample:
  "totalStrokeWidthOf [Num 2, Num 1, Num 2] = Num 5 \<and>
   totalStrokeWidthOf (evenEntries [Num 2, Num 1, Num 2]) = Num 4 \<and>
   map strokeStart (placeStrokes [Num 2, Num 1, Num 2] (point 0 0) None None (point 10 0))
     = [point 0 (- 3 / 2), point 0 (3 / 2)] \<and>
   map strokeStart (placeStrokes [NaN] (point 0 0) None None (point 10 0))
     = [\<lparr>x = NaN, y = NaN\<rparr>]"
  by (simp add: totalStrokeWidthOf_def placeStrokes_def strokeLoop.simps(2)
      offsetUnitVectorOf_def unitVector_def point_def sqrt_100 Let_def)

theorem stroke_offsets_witness:
  "placeStrokes [Num 2, Num 1, Num 2] (point 0 0) None None (point 10 0)
     = [strokeAt (point 0 1) (Num (- 3 / 2)) (Num 2) (point 0 0) None None (point 10 0),
        strokeAt (point 0 1) (Num (3 / 2)) (Num 2) (point 0 0) None None (point 10 0)] \<and>
   centerlineOffset [2, 1, 2] 0 - 2 / 2 = - 5 / 2 \<and>
   centerlineOffset [2, 1, 2] 1 + 2 / 2 = 5 / 2 \<and>
   makeAndPlaceEdge (\<lambda>s. NaN) (Num 4) Map.empty (point 0 0) None None (point 10 0) None
     = [\<lparr>strokeWidth = Num 4, strokeStart = point 0 0, strokeControl1 = None,
         strokeControl2 = None, strokeEnd = point 10 0\<rparr>]"
  using stroke_offsets [of "[2, 1, 2]" "[]" "point 0 0" None None "point 10 0"
      "point 0 1" "Num 0" "Num 1" "[]" "Num 1" 4 "\<lambda>s. NaN" Map.empty]
  by (simp add: horizontal_axis centerlineOffset_def upt_conv_Cons)

lemma doubled_even: "even (length sw) \<Longrightarrow> doubledStrokeWidths sw = sw @ sw"
  by (simp add: doubledStrokeWidths_def even_iff_mod_2_eq_zero)

lemma doubled_odd: "odd (length sw) \<Longrightarrow> doubledStrokeWidths sw = sw"
  by (simp add: doubledStrokeWidths_def odd_iff_mod_2_eq_one)

lemma placeStrokes_widths: "map strokeWidth (placeStrokes ws s c1 c2 e) = evenEntries ws"
  by (simp add: placeStrokes_loop strokeLoop_widths)

lemma evenEntries_doubled:
  "even (length sw) \<Longrightarrow> evenEntries (sw @ sw) = evenEntries sw @ evenEntries sw"
proof -
  have "even (length a) \<Longrightarrow> evenEntries (a @ b) = evenEntries a @ evenEntries b" for a b :: "'a list"
    by (induction a rule: evenEntries.induct) simp_all
  then show "even (length sw) \<Longrightarrow> evenEntries (sw @ sw) = evenEntries sw @ evenEntries sw"
    by blast
qed

text \<open>
  Claim C5, amended. A parsed pattern of even length is appended to itself once; the
  result has twice the length, which is even again. The entries at the even indices are
  the strokes and those at the odd indices the gaps, so the doubled pattern gives as many
  strokes as the parsed pattern has entries. The pattern \<open>"2 1"\<close> is treated as
  \<open>2 1 2 1\<close> and gives two strokes. A pattern of odd length is left as it is.
\<close>

theorem stroke_pattern_doubling:
  "(even (length sw) \<longrightarrow>
      doubledStrokeWidths sw = sw @ sw \<and>
      even (length (doubledStrokeWidths sw)) \<and>
      map strokeWidth (placeStrokes (doubledStrokeWidths sw) s c1 c2 e)
        = evenEntries sw @ evenEntries sw \<and>
      length (placeStrokes (doubledStrokeWidths sw) s c1 c2 e) = length sw) \<and>
   (odd (length sw) \<longrightarrow> doubledStrokeWidths sw = sw) \<and>
   map strokeWidth (placeStrokes ws s c1 c2 e) = evenEntries ws \<and>
   length (placeStrokes ws s c1 c2 e) = (length ws + 1) div 2 \<and>
   pieces ''2 1'' = [''2'', ''1''] \<and>
   (parseFloat ''2'' = Num 2 \<and> parseFloat ''1'' = Num 1 \<and> styleName' \<noteq> [] \<and>
    styleMap styleName' = Some style \<and> strokeWidthArray style = Some ''2 1'' \<longrightarrow>
      doubledStrokeWidths (parsedStrokeWidths parseFloat w0 (getWeathermapStyle styleMap (Some styleName')))
        = [Num 2, Num 1, Num 2, Num 1] \<and>
      map strokeWidth (makeAndPlaceEdge parseFloat w0 styleMap s c1 c2 e (Some styleName'))
        = [Num 2, Num 2])"
proof (intro conjI impI)
  assume ev: "even (length sw)"
  show d: "doubledStrokeWidths sw = sw @ sw" using ev by (rule doubled_even)
  show "even (length (doubledStrokeWidths sw))" by (simp add: d)
  show "map strokeWidth (placeStrokes (doubledStrokeWidths sw) s c1 c2 e)
        = evenEntries sw @ evenEntries sw"
    by (simp add: d placeStrokes_widths evenEntries_doubled [OF ev])
  have "length (map strokeWidth (placeStrokes (doubledStrokeWidths sw) s c1 c2 e)) = length sw"
    unfolding placeStrokes_widths d length_evenEntries using ev by auto
  then show "length (placeStrokes (doubledStrokeWidths sw) s c1 c2 e) = length sw" by simp
next
  assume "odd (length sw)"
  then show "doubledStrokeWidths sw = sw" by (rule doubled_odd)
next
  show "map strokeWidth (placeStrokes ws s c1 c2 e) = evenEntries ws"
    by (rule placeStrokes_widths)
  have "length (map strokeWidth (placeStrokes ws s c1 c2 e)) = (length ws + 1) div 2"
    unfolding placeStrokes_widths by (rule length_evenEntries)
  then show "length (placeStrokes ws s c1 c2 e) = (length ws + 1) div 2" by simp
  show p: "pieces ''2 1'' = [''2'', ''1'']"
    by (simp add: pieces.simps isSeparator_def)
next
  assume a: "parseFloat ''2'' = Num 2 \<and> parseFloat ''1'' = Num 1 \<and> styleName' \<noteq> [] \<and>
    styleMap styleName' = Some style \<and> strokeWidthArray style = Some ''2 1''"
  have p: "pieces ''2 1'' = [''2'', ''1'']"
    by (simp add: pieces.simps isSeparator_def)
  show w: "doubledStrokeWidths (parsedStrokeWidths parseFloat w0 (getWeathermapStyle styleMap (Some styleName')))
        = [Num 2, Num 1, Num 2, Num 1]"
    using a by (simp add: getWeathermapStyle_def parsedStrokeWidths_def p doubledStrokeWidths_def)
  show "map strokeWidth (makeAndPlaceEdge parseFloat w0 styleMap s c1 c2 e (Some styleName'))
        = [Num 2, Num 2]"
    by (simp add: makeAndPlaceEdge_def Let_def w placeStrokes_widths)
qed

text \<open>
  The claim C5 as stated fails: the doubled pattern of \<open>2 1\<close> has length 4, which is not
  odd, and its last entry is a gap: two strokes of width 2 are emitted, at \<open>y = -2\<close> and
  \<open>y = 1\<close> for the segment from \<open>(0, 0)\<close> to \<open>(10, 0)\<close>.
\<close>

theorem stroke_pattern_doubling_counterexample:
  "doubledStrokeWidths [Num 2, Num 1] = [Num 2, Num 1, Num 2, Num 1] \<and>
   length (doubledStrokeWidths [Num 2, Num 1]) = 4 \<and>
   \<not> odd (length (doubledStrokeWidths [Num 2, Num 1])) \<and>
   map strokeWidth
     (placeStrokes (doubledStrokeWidths [Num 2, Num 1]) (point 0 0) None None (point 10 0))
     = [Num 2, Num 2] \<and>
   map strokeStart
     (placeStrokes (doubledStrokeWidths [Num 2, Num 1]) (point 0 0) None None (point 10 0))
     = [point 0 (- 2), point 0 1]"
  by (simp add: doubledStrokeWidths_def totalStrokeWidthOf_def placeStrokes_def
      strokeLoop.simps(2) offsetUnitVectorOf_def unitVector_def point_def sqrt_100 Let_def)

theorem stroke_pattern_doubling_witness:
  "doubledStrokeWidths [Num 2, Num 1] = [Num 2, Num 1, Num 2, Num 1] \<and>
   doubledStrokeWidths [Num 2, Num 1, Num 2] = [Num 2, Num 1, Num 2] \<and>
   map strokeWidth
     (makeAndPlaceEdge (\<lambda>s. if s = ''2'' then Num 2 else if s = ''1'' then Num 1 else NaN)
        (Num 4) [''double'' \<mapsto> \<lparr>name = ''double'', strokeWidthArray = Some ''2 1'',
           dashArray = None\<rparr>]
        (point 0 0) None None (point 10 0) (Some ''double''))
     = [Num 2, Num 2]"
  using stroke_pattern_doubling [of "[Num 2, Num 1]" "point 0 0" None None "point 10 0" "[]"
      "\<lambda>s. if s = ''2'' then Num 2 else if s = ''1'' then Num 1 else NaN" "''double''"
      "[''double'' \<mapsto> \<lparr>name = ''double'', strokeWidthArray = Some ''2 1'', dashArray = None\<rparr>]"
      "\<lparr>name = ''double'', strokeWidthArray = Some ''2 1'', dashArray = None\<rparr>" "Num 4"]
    stroke_pattern_doubling [of "[Num 2, Num 1, Num 2]"]
  by simp

end
